theory Spec2Isabelle
  imports Main "HOL-Library.Sublist"
begin

section \<open>The mutex with a waiting queue (class Mutex, settings.ts lines 41-106)\<close>

text \<open>
  \<^verbatim>\<open>class Mutex\<close> has two fields: the flag \<^verbatim>\<open>isLocked\<close> and the array
  \<^verbatim>\<open>waitingQueue\<close> of \<^verbatim>\<open>acquireLock\<close> closures. A closure in the queue does two
  things when it is called: it sets \<^verbatim>\<open>isLocked = true\<close> and it resolves the promise of
  the \<^verbatim>\<open>lock()\<close> call that created it. The model stores in the queue the identity of that
  call (a natural number), and both operations return, next to the new mutex, the call
  whose promise they resolved (if any).
\<close>

record mutex =
  isLocked :: bool
  waitingQueue :: "nat list"

definition Mutex_new :: mutex where
  "Mutex_new = \<lparr>isLocked = False, waitingQueue = []\<rparr>"

text \<open>
  \<^verbatim>\<open>lock()\<close> (lines 59-80), issued by call \<open>c\<close>: if the mutex is free, \<^verbatim>\<open>acquireLock\<close> runs at
  once; otherwise it is pushed to the end of the queue and the promise stays pending.
\<close>

definition lock :: "nat \<Rightarrow> mutex \<Rightarrow> mutex \<times> nat option" where
  "lock c m =
     (if \<not> isLocked m then (m\<lparr>isLocked := True\<rparr>, Some c)
      else (m\<lparr>waitingQueue := waitingQueue m @ [c]\<rparr>, None))"

text \<open>
  \<^verbatim>\<open>unlock()\<close> (lines 93-105): with a non-empty queue the head is shifted off and called (the mutex
  stays locked, now for that caller); with an empty queue the flag is cleared.
\<close>

definition unlock :: "mutex \<Rightarrow> mutex \<times> nat option" where
  "unlock m =
     (case waitingQueue m of
        c # q \<Rightarrow> (m\<lparr>waitingQueue := q, isLocked := True\<rparr>, Some c)
      | [] \<Rightarrow> (m\<lparr>isLocked := False\<rparr>, None))"

subsection \<open>Callers of the mutex\<close>

text \<open>
  A caller is a \<^emph>\<open>holder\<close> from the moment its \<^verbatim>\<open>lock()\<close> promise is resolved until it
  calls the function the promise resolved to. \<open>issued\<close> records the \<^verbatim>\<open>lock()\<close> calls in
  the order they were made, \<open>granted\<close> the order in which their promises were resolved.
\<close>

record world =
  mtx :: mutex
  issued :: "nat list"
  granted :: "nat list"
  holders :: "nat list"

definition world0 :: world where
  "world0 = \<lparr>mtx = Mutex_new, issued = [], granted = [], holders = []\<rparr>"

datatype mutex_event = Lock nat | Release nat

definition resolved :: "nat option \<Rightarrow> nat list" where
  "resolved g = (case g of None \<Rightarrow> [] | Some c \<Rightarrow> [c])"

fun exec :: "mutex_event \<Rightarrow> world \<Rightarrow> world" where
  "exec (Lock c) w =
     (let (m, g) = lock c (mtx w)
      in w\<lparr>mtx := m, issued := issued w @ [c],
           granted := granted w @ resolved g, holders := holders w @ resolved g\<rparr>)"
| "exec (Release c) w =
     (let (m, g) = unlock (mtx w)
      in w\<lparr>mtx := m, granted := granted w @ resolved g,
           holders := remove1 c (holders w) @ resolved g\<rparr>)"

fun execs :: "mutex_event list \<Rightarrow> world \<Rightarrow> world" where
  "execs [] w = w"
| "execs (e # es) w = execs es (exec e w)"





section \<open>Slider quantisation (platformAccessory.ts)\<close>

definition fanRotationSpeedNormalized :: "int list" where
  "fanRotationSpeedNormalized = [10, 30, 50, 70, 90, 100]"

text \<open>
  \<^verbatim>\<open>adjustInputRotationSpeed(value)\<close>, lines 622-640, branch by branch. The slider is
  set up with \<^verbatim>\<open>minStep: 1\<close> (lines 210-215), so its values are whole numbers; the
  model takes any integer.
\<close>

definition adjustInputRotationSpeed :: "int \<Rightarrow> int" where
  "adjustInputRotationSpeed v =
     (if v = 0 then 0
      else if v < 20 then fanRotationSpeedNormalized ! 0
      else if v < 40 then fanRotationSpeedNormalized ! 1
      else if v < 60 then fanRotationSpeedNormalized ! 2
      else if v < 80 then fanRotationSpeedNormalized ! 3
      else if v < 95 then fanRotationSpeedNormalized ! 4
      else fanRotationSpeedNormalized ! 5)"

text \<open>JavaScript's \<^verbatim>\<open>Array.prototype.indexOf\<close>: the first index, or -1.\<close>

fun indexOf :: "int list \<Rightarrow> int \<Rightarrow> int" where
  "indexOf [] v = - 1"
| "indexOf (x # xs) v =
     (if x = v then 0 else (let i = indexOf xs v in if i < 0 then - 1 else i + 1))"

text \<open>The device speed computed in the debounce callback (line 338).\<close>

definition dpsRotationSpeed :: "int \<Rightarrow> int" where
  "dpsRotationSpeed adjustedValue = indexOf fanRotationSpeedNormalized adjustedValue + 1"

section \<open>The accessory (platformAccessory.ts)\<close>

subsection \<open>Data\<close>

datatype hap_status = SERVICE_COMMUNICATION_FAILURE

datatype dps_value = VBool bool | VNum int | VStr string

text \<open>The data points of a status reply that \<^verbatim>\<open>updateDeviceState\<close> reads.\<close>

record dps_object =
  dps20 :: bool
  dps60 :: bool
  dps62 :: int
  dps63 :: string

text \<open>The field \<^verbatim>\<open>state\<close> of the class: the device state cache.\<close>

record device_state =
  fanOn :: bool
  fanSpeed :: int
  fanRotationClockwise :: bool
  lightOn :: bool
  isValid :: bool

datatype characteristic = Active | RotationSpeed | RotationDirection | LightOn

datatype characteristic_value = CNum int | CBool bool | CUndefined

text \<open>
  An activation of \<^verbatim>\<open>getDeviceStatus\<close> or \<^verbatim>\<open>setDeviceValue\<close> that has reached an
  \<^verbatim>\<open>await\<close> is a task: its identity, which function it runs (with the arguments of
  \<^verbatim>\<open>setDeviceValue\<close>) and the \<^verbatim>\<open>await\<close> it is suspended at. \<open>AwaitLock\<close> and
  \<open>LockGranted\<close> are both the \<^verbatim>\<open>await this.mutex.lock()\<close>: with the promise still
  pending, and with the promise resolved but the continuation not yet run.
\<close>

datatype kind = GetStatus | SetValue nat dps_value

datatype await = AwaitLock | LockGranted | AwaitConnect | AwaitRead | AwaitSet

type_synonym task = "nat \<times> kind \<times> await"

text \<open>
  The callbacks given to \<^verbatim>\<open>setTimeout\<close>: the periodic poll (lines 276 and 454), the
  debounce callback with the captured \<^verbatim>\<open>adjustedValue\<close> (line 337), and the rejecting
  timer of \<^verbatim>\<open>waitForPromiseWithTimeout\<close> (line 521), either around one \<^verbatim>\<open>await\<close>
  of a \<^verbatim>\<open>getDeviceStatus\<close> task or around a whole \<^verbatim>\<open>setDeviceValue\<close> call.
\<close>

datatype callback = PollTick | Debounce int | RaceTimeout nat await | DispatchTimeout nat

type_synonym timer = "nat \<times> callback \<times> nat"

datatype device_call = DevConnect | DevGet | DevSet nat dps_value | DevDisconnect

text \<open>The promise returned by a call of \<^verbatim>\<open>setDeviceValueWithTimeout\<close>.\<close>

datatype outcome = Pending | Fulfilled | Rejected hap_status

text \<open>
  The fields of \<^verbatim>\<open>CreateCeilingFanAccessory\<close> that the methods below use, then the
  parts of the environment they act on: the timers pending in the event loop (handle,
  callback, delay in ms), the suspended tasks, the promises of the
  \<^verbatim>\<open>setDeviceValueWithTimeout\<close> calls, and three logs (calls on the device
  communicator, \<^verbatim>\<open>setDeviceValueWithTimeout\<close> calls, \<^verbatim>\<open>updateCharacteristic\<close> calls).
  \<open>deviceCommunicator\<close> is the identity of the \<^verbatim>\<open>TuyAPI\<close> object the field refers to,
  \<open>lightService\<close> whether that field is defined.
\<close>

record accessory =
  state :: device_state
  mutex :: mutex
  isGetStatusInProgress :: bool
  deviceCommunicator :: nat
  lightService :: bool
  getDeviceStatusTimer :: nat
  fanSetSpeedDebounceTimer :: "nat option"
  timers :: "timer list"
  nextTimer :: nat
  tasks :: "task list"
  nextTask :: nat
  calls :: "(nat \<times> outcome) list"
  deviceCalls :: "device_call list"
  dispatched :: "(nat \<times> dps_value) list"
  updated :: "(characteristic \<times> characteristic_value) list"

definition fanSetSpeedDebouncePeriod :: nat where "fanSetSpeedDebouncePeriod = 500"
definition getDeviceStatusFastRetryPeriod :: nat where "getDeviceStatusFastRetryPeriod = 1000"
definition getDeviceStatusPeriod :: nat where "getDeviceStatusPeriod = 10000"
definition getDeviceStatusConnectTimeout :: nat where "getDeviceStatusConnectTimeout = 3000"
definition getDeviceStatusReadTimeout :: nat where "getDeviceStatusReadTimeout = 1000"
definition setDeviceStatusTimeout :: nat where "setDeviceStatusTimeout = 2500"

text \<open>The values of the HomeKit constants (hap-nodejs).\<close>

definition INACTIVE :: int where "INACTIVE = 0"
definition ACTIVE :: int where "ACTIVE = 1"
definition CLOCKWISE :: int where "CLOCKWISE = 0"
definition COUNTER_CLOCKWISE :: int where "COUNTER_CLOCKWISE = 1"

text \<open>
  The constructor (lines 177-283): the communicator object is created (identity 0), the
  mutex is new and the first poll is scheduled after \<^verbatim>\<open>getDeviceStatusPeriod\<close>. The
  argument says whether the configuration asks for the light service.
\<close>

definition CreateCeilingFanAccessory :: "bool \<Rightarrow> accessory" where
  "CreateCeilingFanAccessory light =
     \<lparr>state = \<lparr>fanOn = False, fanSpeed = 1, fanRotationClockwise = False,
               lightOn = False, isValid = False\<rparr>,
      mutex = Mutex_new, isGetStatusInProgress = False, deviceCommunicator = 0,
      lightService = light, getDeviceStatusTimer = 0, fanSetSpeedDebounceTimer = None,
      timers = [(0, PollTick, getDeviceStatusPeriod)], nextTimer = 1,
      tasks = [], nextTask = 0, calls = [], deviceCalls = [], dispatched = [],
      updated = []\<rparr>"

subsection \<open>Timers, tasks and the mutex of the accessory\<close>

text \<open>\<^verbatim>\<open>setTimeout\<close> returns the handle \<open>nextTimer s\<close> of the state it is applied to.\<close>

definition setTimeout :: "callback \<Rightarrow> nat \<Rightarrow> accessory \<Rightarrow> accessory" where
  "setTimeout cb ms s =
     s\<lparr>timers := timers s @ [(nextTimer s, cb, ms)], nextTimer := nextTimer s + 1\<rparr>"

definition clearTimeout :: "nat \<Rightarrow> accessory \<Rightarrow> accessory" where
  "clearTimeout h s = s\<lparr>timers := filter (\<lambda>t. fst t \<noteq> h) (timers s)\<rparr>"

definition task_of :: "nat \<Rightarrow> accessory \<Rightarrow> (kind \<times> await) option" where
  "task_of c s = map_of (tasks s) c"

text \<open>The function that task \<open>c\<close> runs, when \<open>c\<close> is suspended at \<open>p\<close>.\<close>

definition suspended_at :: "nat \<Rightarrow> await \<Rightarrow> accessory \<Rightarrow> kind option" where
  "suspended_at c p s =
     (case task_of c s of
        None \<Rightarrow> None
      | Some (k, q) \<Rightarrow> if q = p then Some k else None)"

definition suspend :: "nat \<Rightarrow> await \<Rightarrow> accessory \<Rightarrow> accessory" where
  "suspend c p s =
     s\<lparr>tasks := map (\<lambda>(d, k, q). if d = c then (d, k, p) else (d, k, q)) (tasks s)\<rparr>"

definition finish :: "nat \<Rightarrow> accessory \<Rightarrow> accessory" where
  "finish c s = s\<lparr>tasks := filter (\<lambda>t. fst t \<noteq> c) (tasks s)\<rparr>"

text \<open>
  \<^verbatim>\<open>await this.mutex.lock()\<close> in a new activation of kind \<open>k\<close>: the executor of the
  promise runs at once, then the activation is suspended.
\<close>

definition await_lock :: "kind \<Rightarrow> accessory \<Rightarrow> accessory" where
  "await_lock k s =
     (let c = nextTask s; (m, g) = lock c (mutex s)
      in s\<lparr>mutex := m,
           tasks := tasks s @ [(c, k, if g = None then AwaitLock else LockGranted)],
           nextTask := c + 1\<rparr>)"

text \<open>\<^verbatim>\<open>releaseMutex()\<close>: the task at the head of the queue, if any, has its promise resolved.\<close>

definition releaseMutex :: "accessory \<Rightarrow> accessory" where
  "releaseMutex s =
     (let (m, g) = unlock (mutex s)
      in case g of
           None \<Rightarrow> s\<lparr>mutex := m\<rparr>
         | Some d \<Rightarrow> suspend d LockGranted (s\<lparr>mutex := m\<rparr>))"

subsection \<open>The device state cache and its projections\<close>

definition updateCharacteristic ::
  "characteristic \<Rightarrow> characteristic_value \<Rightarrow> accessory \<Rightarrow> accessory" where
  "updateCharacteristic ch v s = s\<lparr>updated := updated s @ [(ch, v)]\<rparr>"

definition fanActiveValueToCharacteristicValue :: "accessory \<Rightarrow> characteristic_value" where
  "fanActiveValueToCharacteristicValue s =
     CNum (if fanOn (state s) then ACTIVE else INACTIVE)"

text \<open>An index outside the array reads \<^verbatim>\<open>undefined\<close> (line 588).\<close>

definition fanRotationSpeedValueToCharacteristicValue :: "accessory \<Rightarrow> characteristic_value" where
  "fanRotationSpeedValueToCharacteristicValue s =
     (let i = fanSpeed (state s) - 1
      in if 0 \<le> i \<and> i < int (length fanRotationSpeedNormalized)
         then CNum (fanRotationSpeedNormalized ! nat i) else CUndefined)"

definition fanRotationDirectionValueToCharacteristicValue :: "accessory \<Rightarrow> characteristic_value" where
  "fanRotationDirectionValueToCharacteristicValue s =
     CNum (if fanRotationClockwise (state s) then CLOCKWISE else COUNTER_CLOCKWISE)"

definition lightOnValueToCharacteristicValue :: "accessory \<Rightarrow> characteristic_value" where
  "lightOnValueToCharacteristicValue s = CBool (lightOn (state s))"

definition updateDeviceState :: "dps_object \<Rightarrow> accessory \<Rightarrow> accessory" where
  "updateDeviceState status s =
     s\<lparr>state := (state s)\<lparr>fanOn := dps60 status, fanSpeed := dps62 status,
          fanRotationClockwise := (if dps63 status = ''forward'' then False else True),
          lightOn := dps20 status\<rparr>\<rparr>"

definition updateAccessoryState :: "accessory \<Rightarrow> accessory" where
  "updateAccessoryState s =
     (let s1 = updateCharacteristic Active (fanActiveValueToCharacteristicValue s) s;
          s2 = updateCharacteristic RotationSpeed (fanRotationSpeedValueToCharacteristicValue s1) s1;
          s3 = updateCharacteristic RotationDirection
                 (fanRotationDirectionValueToCharacteristicValue s2) s2
      in if lightService s3
         then updateCharacteristic LightOn (lightOnValueToCharacteristicValue s3) s3
         else s3)"

definition throwErrorIfDeviceUnresponsive :: "accessory \<Rightarrow> hap_status option" where
  "throwErrorIfDeviceUnresponsive s =
     (if \<not> isValid (state s) then Some SERVICE_COMMUNICATION_FAILURE else None)"

subsection \<open>getDeviceStatus (lines 417-456), one definition per stretch between awaits\<close>

text \<open>Lines 451-455; the argument is the local \<^verbatim>\<open>isCommunicationError\<close>.\<close>

definition scheduleNextPoll :: "bool \<Rightarrow> accessory \<Rightarrow> accessory" where
  "scheduleNextPoll isCommunicationError s =
     (let nextGetStatusPeriod =
            (if isCommunicationError then getDeviceStatusFastRetryPeriod
             else getDeviceStatusPeriod)
      in (setTimeout PollTick nextGetStatusPeriod s)\<lparr>getDeviceStatusTimer := nextTimer s\<rparr>)"

text \<open>
  From the call to the first \<^verbatim>\<open>await\<close> (lines 418-425), or, when a read is in
  progress, to the end (lines 447-455).
\<close>

definition getDeviceStatus :: "accessory \<Rightarrow> accessory" where
  "getDeviceStatus s =
     (let s1 = clearTimeout (getDeviceStatusTimer s) s
      in if \<not> isGetStatusInProgress s1
         then await_lock GetStatus (s1\<lparr>isGetStatusInProgress := True\<rparr>)
         else scheduleNextPoll False s1)"

text \<open>Lines 426-429: the mutex is granted; \<^verbatim>\<open>connect()\<close> is raced against a timer.\<close>

definition getDeviceStatus_locked :: "nat \<Rightarrow> accessory \<Rightarrow> accessory" where
  "getDeviceStatus_locked c s =
     suspend c AwaitConnect
       (setTimeout (RaceTimeout c AwaitConnect) getDeviceStatusConnectTimeout
          (s\<lparr>deviceCalls := deviceCalls s @ [DevConnect]\<rparr>))"

text \<open>Lines 430-432: connected; \<^verbatim>\<open>get({schema: true})\<close> is raced against a timer.\<close>

definition getDeviceStatus_connected :: "nat \<Rightarrow> accessory \<Rightarrow> accessory" where
  "getDeviceStatus_connected c s =
     suspend c AwaitRead
       (setTimeout (RaceTimeout c AwaitRead) getDeviceStatusReadTimeout
          (s\<lparr>deviceCalls := deviceCalls s @ [DevGet]\<rparr>))"

text \<open>The \<^verbatim>\<open>finally\<close> block, lines 442-446.\<close>

definition getDeviceStatus_finally :: "nat \<Rightarrow> accessory \<Rightarrow> accessory" where
  "getDeviceStatus_finally c s =
     finish c (releaseMutex (s\<lparr>isGetStatusInProgress := False\<rparr>))"

text \<open>Lines 433-436, the \<^verbatim>\<open>finally\<close> block and lines 451-455: the read succeeded.\<close>

definition getDeviceStatus_read :: "nat \<Rightarrow> dps_object \<Rightarrow> accessory \<Rightarrow> accessory" where
  "getDeviceStatus_read c status s =
     (let s1 = updateDeviceState status s;
          s2 = s1\<lparr>state := (state s1)\<lparr>isValid := True\<rparr>\<rparr>;
          s3 = updateAccessoryState s2
      in scheduleNextPoll False (getDeviceStatus_finally c s3))"

text \<open>
  Lines 437-441, the \<^verbatim>\<open>finally\<close> block and lines 451-455: \<^verbatim>\<open>connect\<close> or
  \<^verbatim>\<open>get\<close> rejected, or its timer fired first.
\<close>

definition getDeviceStatus_catch :: "nat \<Rightarrow> accessory \<Rightarrow> accessory" where
  "getDeviceStatus_catch c s =
     (let s1 = s\<lparr>deviceCalls := deviceCalls s @ [DevDisconnect]\<rparr>;
          s2 = s1\<lparr>state := (state s1)\<lparr>isValid := False\<rparr>\<rparr>
      in scheduleNextPoll True (getDeviceStatus_finally c s2))"

subsection \<open>setDeviceValue (lines 467-487) and setDeviceValueWithTimeout (lines 500-510)\<close>

text \<open>Lines 468-470.\<close>

definition setDeviceValue :: "nat \<Rightarrow> dps_value \<Rightarrow> accessory \<Rightarrow> accessory" where
  "setDeviceValue dps v s = await_lock (SetValue dps v) s"

text \<open>Lines 471-474: the mutex is granted; \<^verbatim>\<open>connect()\<close> is awaited with no timer.\<close>

definition setDeviceValue_locked :: "nat \<Rightarrow> accessory \<Rightarrow> accessory" where
  "setDeviceValue_locked c s =
     suspend c AwaitConnect (s\<lparr>deviceCalls := deviceCalls s @ [DevConnect]\<rparr>)"

text \<open>Lines 475-476.\<close>

definition setDeviceValue_connected :: "nat \<Rightarrow> nat \<Rightarrow> dps_value \<Rightarrow> accessory \<Rightarrow> accessory" where
  "setDeviceValue_connected c dps v s =
     suspend c AwaitSet (s\<lparr>deviceCalls := deviceCalls s @ [DevSet dps v]\<rparr>)"

text \<open>
  A promise settles once: \<^verbatim>\<open>Promise.race\<close> takes the first of the two, and the
  later one changes nothing.
\<close>

definition settle :: "nat \<Rightarrow> outcome \<Rightarrow> accessory \<Rightarrow> accessory" where
  "settle c r s =
     s\<lparr>calls := map (\<lambda>(d, r'). if d = c \<and> r' = Pending then (d, r) else (d, r')) (calls s)\<rparr>"

definition call_outcome :: "nat \<Rightarrow> accessory \<Rightarrow> outcome option" where
  "call_outcome c s = map_of (calls s) c"

text \<open>
  The \<^verbatim>\<open>finally\<close> block and line 486: the mutex is released and the promise of
  \<^verbatim>\<open>setDeviceValue\<close> is fulfilled, which settles the race of line 502 if the timer has
  not.
\<close>

definition setDeviceValue_finally :: "nat \<Rightarrow> accessory \<Rightarrow> accessory" where
  "setDeviceValue_finally c s = settle c Fulfilled (finish c (releaseMutex s))"

text \<open>Lines 478-480, then the \<^verbatim>\<open>finally\<close> block: the error is logged, not thrown again.\<close>

definition setDeviceValue_catch :: "nat \<Rightarrow> accessory \<Rightarrow> accessory" where
  "setDeviceValue_catch c s =
     setDeviceValue_finally c (s\<lparr>deviceCalls := deviceCalls s @ [DevDisconnect]\<rparr>)"

text \<open>
  Lines 501-504: \<^verbatim>\<open>setDeviceValue\<close> is called (it runs to its first \<^verbatim>\<open>await\<close>), then
  the timer of the race is started.
\<close>

definition setDeviceValueWithTimeout :: "nat \<Rightarrow> dps_value \<Rightarrow> accessory \<Rightarrow> accessory" where
  "setDeviceValueWithTimeout dps v s =
     (let c = nextTask s;
          s1 = s\<lparr>dispatched := dispatched s @ [(dps, v)], calls := calls s @ [(c, Pending)]\<rparr>
      in setTimeout (DispatchTimeout c) setDeviceStatusTimeout (setDeviceValue dps v s1))"

text \<open>Lines 505-508: the timer of the race fired; the \<^verbatim>\<open>catch\<close> throws the HAP error.\<close>

definition setDeviceValueWithTimeout_catch :: "nat \<Rightarrow> accessory \<Rightarrow> accessory" where
  "setDeviceValueWithTimeout_catch c s = settle c (Rejected SERVICE_COMMUNICATION_FAILURE) s"

subsection \<open>The handlers registered with HomeKit\<close>

definition get_handler ::
  "(accessory \<Rightarrow> characteristic_value) \<Rightarrow> accessory \<Rightarrow> (hap_status + characteristic_value) \<times> accessory" where
  "get_handler projection s =
     (let s1 = getDeviceStatus s
      in case throwErrorIfDeviceUnresponsive s1 of
           Some e \<Rightarrow> (Inl e, s1)
         | None \<Rightarrow> (Inr (projection s1), s1))"

definition handleFanActiveStateGet ::
  "accessory \<Rightarrow> (hap_status + characteristic_value) \<times> accessory" where
  "handleFanActiveStateGet = get_handler fanActiveValueToCharacteristicValue"

definition handleFanRotationSpeedGet ::
  "accessory \<Rightarrow> (hap_status + characteristic_value) \<times> accessory" where
  "handleFanRotationSpeedGet = get_handler fanRotationSpeedValueToCharacteristicValue"

definition handleFanRotationDirectionGet ::
  "accessory \<Rightarrow> (hap_status + characteristic_value) \<times> accessory" where
  "handleFanRotationDirectionGet = get_handler fanRotationDirectionValueToCharacteristicValue"

definition handleLightOnGet ::
  "accessory \<Rightarrow> (hap_status + characteristic_value) \<times> accessory" where
  "handleLightOnGet = get_handler lightOnValueToCharacteristicValue"

definition handleFanActiveStateSet :: "int \<Rightarrow> accessory \<Rightarrow> accessory" where
  "handleFanActiveStateSet v s =
     setDeviceValueWithTimeout 60 (VBool (if v = ACTIVE then True else False)) s"

text \<open>Lines 322-343, up to the start of the debounce timer.\<close>

definition handleFanRotationSpeedSet :: "int \<Rightarrow> accessory \<Rightarrow> accessory" where
  "handleFanRotationSpeedSet v s =
     (let adjustedValue = adjustInputRotationSpeed v;
          s1 = (case fanSetSpeedDebounceTimer s of
                  None \<Rightarrow> s
                | Some h \<Rightarrow> clearTimeout h s)
      in if adjustedValue \<noteq> 0
         then (setTimeout (Debounce adjustedValue) fanSetSpeedDebouncePeriod
                 (updateCharacteristic RotationSpeed (CNum adjustedValue) s1))
              \<lparr>fanSetSpeedDebounceTimer := Some (nextTimer s1)\<rparr>
         else s1)"

text \<open>Lines 337-341: the callback of the debounce timer.\<close>

definition debounce_callback :: "int \<Rightarrow> accessory \<Rightarrow> accessory" where
  "debounce_callback adjustedValue s =
     setDeviceValueWithTimeout 62 (VNum (dpsRotationSpeed adjustedValue)) s"

definition handleFanRotationDirectionSet :: "int \<Rightarrow> accessory \<Rightarrow> accessory" where
  "handleFanRotationDirectionSet v s =
     setDeviceValueWithTimeout 63
       (VStr (if v = COUNTER_CLOCKWISE then ''forward'' else ''reverse'')) s"

definition handleLightOnSet :: "bool \<Rightarrow> accessory \<Rightarrow> accessory" where
  "handleLightOnSet v s = setDeviceValueWithTimeout 20 (VBool v) s"

subsection \<open>The event loop\<close>

text \<open>
  Everything that can make the accessory run: a pending timer fires, HomeKit calls a
  handler, the continuation of a granted \<^verbatim>\<open>lock()\<close> runs, or a promise of the device
  communicator settles (\<open>True\<close> and \<open>Some status\<close> for fulfilled). An event that finds
  nothing waiting for it (a timer that was cleared, a promise whose race is over, a task
  that is elsewhere) runs no code of the accessory and leaves the state as it is. Timers
  may fire in any order: the delays are recorded, not compared.
\<close>

datatype event =
    TimerFires nat
  | HomeKitGet characteristic
  | HomeKitSetActive int
  | HomeKitSetRotationSpeed int
  | HomeKitSetRotationDirection int
  | HomeKitSetLightOn bool
  | Resume nat
  | ConnectSettles nat bool
  | ReadSettles nat "dps_object option"
  | SetSettles nat bool

definition run_callback :: "callback \<Rightarrow> accessory \<Rightarrow> accessory" where
  "run_callback cb s =
     (case cb of
        PollTick \<Rightarrow> getDeviceStatus s
      | Debounce adjustedValue \<Rightarrow> debounce_callback adjustedValue s
      | RaceTimeout c p \<Rightarrow>
          (if suspended_at c p s = Some GetStatus then getDeviceStatus_catch c s else s)
      | DispatchTimeout c \<Rightarrow> setDeviceValueWithTimeout_catch c s)"

definition pending_timer :: "nat \<Rightarrow> accessory \<Rightarrow> (callback \<times> nat) option" where
  "pending_timer h s = map_of (timers s) h"

fun step :: "event \<Rightarrow> accessory \<Rightarrow> accessory" where
  "step (TimerFires h) s =
     (case pending_timer h s of
        None \<Rightarrow> s
      | Some (cb, ms) \<Rightarrow> run_callback cb (clearTimeout h s))"
| "step (HomeKitGet Active) s = snd (handleFanActiveStateGet s)"
| "step (HomeKitGet RotationSpeed) s = snd (handleFanRotationSpeedGet s)"
| "step (HomeKitGet RotationDirection) s = snd (handleFanRotationDirectionGet s)"
| "step (HomeKitGet LightOn) s = snd (handleLightOnGet s)"
| "step (HomeKitSetActive v) s = handleFanActiveStateSet v s"
| "step (HomeKitSetRotationSpeed v) s = handleFanRotationSpeedSet v s"
| "step (HomeKitSetRotationDirection v) s = handleFanRotationDirectionSet v s"
| "step (HomeKitSetLightOn v) s = handleLightOnSet v s"
| "step (Resume c) s =
     (case suspended_at c LockGranted s of
        None \<Rightarrow> s
      | Some GetStatus \<Rightarrow> getDeviceStatus_locked c s
      | Some (SetValue dps v) \<Rightarrow> setDeviceValue_locked c s)"
| "step (ConnectSettles c ok) s =
     (case suspended_at c AwaitConnect s of
        None \<Rightarrow> s
      | Some GetStatus \<Rightarrow>
          (if ok then getDeviceStatus_connected c s else getDeviceStatus_catch c s)
      | Some (SetValue dps v) \<Rightarrow>
          (if ok then setDeviceValue_connected c dps v s else setDeviceValue_catch c s))"
| "step (ReadSettles c r) s =
     (case suspended_at c AwaitRead s of
        Some GetStatus \<Rightarrow>
          (case r of
             Some status \<Rightarrow> getDeviceStatus_read c status s
           | None \<Rightarrow> getDeviceStatus_catch c s)
      | _ \<Rightarrow> s)"
| "step (SetSettles c ok) s =
     (case suspended_at c AwaitSet s of
        Some (SetValue dps v) \<Rightarrow>
          (if ok then setDeviceValue_finally c s else setDeviceValue_catch c s)
      | _ \<Rightarrow> s)"

fun run :: "event list \<Rightarrow> accessory \<Rightarrow> accessory" where
  "run [] s = s"
| "run (e # es) s = run es (step e s)"

subsection \<open>Observations and scenarios\<close>

text \<open>The \<^verbatim>\<open>getDeviceStatus\<close> activations that are between their start and their end.\<close>

definition polls_in_flight :: "accessory \<Rightarrow> nat" where
  "polls_in_flight s = length (filter (\<lambda>t. fst (snd t) = GetStatus) (tasks s))"

text \<open>The stored poll timer is pending with delay \<open>ms\<close>.\<close>

definition next_poll :: "accessory \<Rightarrow> nat \<Rightarrow> bool" where
  "next_poll s ms = ((getDeviceStatusTimer s, PollTick, ms) \<in> set (timers s))"

text \<open>
  One polling cycle that fails: the poll timer fires, the mutex is granted, and
  \<^verbatim>\<open>connect()\<close> is rejected.
\<close>

definition failed_poll :: "accessory \<Rightarrow> accessory" where
  "failed_poll s =
     run [TimerFires (getDeviceStatusTimer s), Resume (nextTask s),
          ConnectSettles (nextTask s) False] s"

fun is_debounce :: "callback \<Rightarrow> bool" where
  "is_debounce (Debounce adjustedValue) = True"
| "is_debounce PollTick = False"
| "is_debounce (RaceTimeout c p) = False"
| "is_debounce (DispatchTimeout c) = False"

text \<open>The debounce timers that are still to fire.\<close>

definition debounce_pending :: "accessory \<Rightarrow> timer list" where
  "debounce_pending s = filter (\<lambda>t. is_debounce (fst (snd t))) (timers s)"

text \<open>The speed commands (data point 62) among the dispatched commands.\<close>

definition speed_commands :: "accessory \<Rightarrow> (nat \<times> dps_value) list" where
  "speed_commands s = filter (\<lambda>d. fst d = 62) (dispatched s)"

fun is_slider_input :: "event \<Rightarrow> bool" where
  "is_slider_input (HomeKitSetRotationSpeed v) = True"
| "is_slider_input (TimerFires h) = False"
| "is_slider_input (HomeKitGet ch) = False"
| "is_slider_input (HomeKitSetActive v) = False"
| "is_slider_input (HomeKitSetRotationDirection v) = False"
| "is_slider_input (HomeKitSetLightOn v) = False"
| "is_slider_input (Resume c) = False"
| "is_slider_input (ConnectSettles c ok) = False"
| "is_slider_input (ReadSettles c r) = False"
| "is_slider_input (SetSettles c ok) = False"

text \<open>A stretch of events in which the slider is not moved.\<close>

definition slider_at_rest :: "event list \<Rightarrow> bool" where
  "slider_at_rest es = list_all (\<lambda>e. \<not> is_slider_input e) es"

text \<open>
  A gesture on the slider: a stretch of events, slider inputs among them, in which no
  debounce timer fires (the inputs follow each other within the debounce period).
  \<open>slider_inputs\<close> are the values of its slider inputs, in order.
\<close>

fun fires_debounce :: "event \<Rightarrow> accessory \<Rightarrow> bool" where
  "fires_debounce (TimerFires h) s = (h \<in> fst ` set (debounce_pending s))"
| "fires_debounce e s = False"

fun gesture :: "event list \<Rightarrow> accessory \<Rightarrow> bool" where
  "gesture [] s = True"
| "gesture (e # es) s = (\<not> fires_debounce e s \<and> gesture es (step e s))"

fun slider_inputs :: "event list \<Rightarrow> int list" where
  "slider_inputs [] = []"
| "slider_inputs (HomeKitSetRotationSpeed v # es) = v # slider_inputs es"
| "slider_inputs (e # es) = slider_inputs es"

subsection \<open>Invariants of the event loop\<close>

text \<open>Timer handles and task identities are handed out once.\<close>

definition timers_ok :: "accessory \<Rightarrow> bool" where
  "timers_ok s =
     (distinct (map fst (timers s)) \<and> (\<forall>t \<in> set (timers s). fst t < nextTimer s))"

definition tasks_ok :: "accessory \<Rightarrow> bool" where
  "tasks_ok s =
     (distinct (map fst (tasks s)) \<and> (\<forall>t \<in> set (tasks s). fst t < nextTask s))"

text \<open>A pending debounce timer is the one stored in \<^verbatim>\<open>fanSetSpeedDebounceTimer\<close>.\<close>

definition debounce_ok :: "accessory \<Rightarrow> bool" where
  "debounce_ok s =
     (\<forall>t \<in> set (timers s). is_debounce (fst (snd t)) \<longrightarrow>
        fanSetSpeedDebounceTimer s = Some (fst t))"

text \<open>The stored poll timer handle is not the handle of a debounce timer.\<close>

definition poll_handle_ok :: "accessory \<Rightarrow> bool" where
  "poll_handle_ok s =
     (getDeviceStatusTimer s < nextTimer s \<and>
      (\<forall>t \<in> set (timers s). fst t = getDeviceStatusTimer s \<longrightarrow> \<not> is_debounce (fst (snd t))))"

definition gesture_inv :: "accessory \<Rightarrow> bool" where
  "gesture_inv s = (timers_ok s \<and> debounce_ok s \<and> poll_handle_ok s)"

text \<open>The flag \<^verbatim>\<open>isGetStatusInProgress\<close> counts the polls in flight.\<close>

definition flight_ok :: "accessory \<Rightarrow> bool" where
  "flight_ok s = (polls_in_flight s = (if isGetStatusInProgress s then 1 else 0))"

text \<open>Task \<open>c\<close> has run and ended.\<close>

definition task_over :: "nat \<Rightarrow> accessory \<Rightarrow> bool" where
  "task_over c s = (tasks_ok s \<and> c < nextTask s \<and> task_of c s = None)"

text \<open>The promise of call \<open>c\<close> is pending or fulfilled.\<close>

definition not_rejected :: "nat \<Rightarrow> accessory \<Rightarrow> bool" where
  "not_rejected c s = (call_outcome c s = Some Pending \<or> call_outcome c s = Some Fulfilled)"

text \<open>Between two polls: nothing holds the mutex and the stored poll timer is pending.\<close>

definition idle :: "accessory \<Rightarrow> bool" where
  "idle s =
     (timers_ok s \<and> tasks_ok s \<and> \<not> isGetStatusInProgress s \<and> mutex s = Mutex_new \<and>
      map_option fst (pending_timer (getDeviceStatusTimer s) s) = Some PollTick)"

subsection \<open>Example states\<close>

definition example_status :: dps_object where
  "example_status = \<lparr>dps20 = True, dps60 = True, dps62 = 3, dps63 = ''reverse''\<rparr>"

text \<open>A poll that waits for \<^verbatim>\<open>connect()\<close>, and one that waits for \<^verbatim>\<open>get()\<close>.\<close>

definition poll_connecting :: accessory where
  "poll_connecting = run [TimerFires 0, Resume 0] (CreateCeilingFanAccessory True)"

definition poll_reading :: accessory where
  "poll_reading =
     run [TimerFires 0, Resume 0, ConnectSettles 0 True] (CreateCeilingFanAccessory True)"

text \<open>
  HomeKit switches the light on: the dispatch waits for \<^verbatim>\<open>connect()\<close>; it waits for
  \<^verbatim>\<open>set()\<close>; the timer of \<^verbatim>\<open>setDeviceValueWithTimeout\<close> (handle 1) has fired while
  it waits for \<^verbatim>\<open>set()\<close>.
\<close>

definition light_connecting :: accessory where
  "light_connecting = run [HomeKitSetLightOn True, Resume 0] (CreateCeilingFanAccessory True)"

definition light_sending :: accessory where
  "light_sending =
     run [HomeKitSetLightOn True, Resume 0, ConnectSettles 0 True]
       (CreateCeilingFanAccessory True)"

definition light_sending_late :: accessory where
  "light_sending_late =
     run [HomeKitSetLightOn True, Resume 0, ConnectSettles 0 True, TimerFires 1]
       (CreateCeilingFanAccessory True)"

section \<open>The mutex: fairness and exclusion\<close>











text \<open>
  The hypothesis is needed: \<^verbatim>\<open>unlock()\<close> does not check who calls it. When caller 1
  calls its release function twice, callers 2 and 3 are holders together.
\<close>

lemma double_release_two_holders:
  "holders (execs [Lock 1, Lock 2, Lock 3, Release 1, Release 1] world0) = [2, 3]"
  by (simp add: world0_def Mutex_new_def lock_def unlock_def resolved_def)

section \<open>Slider quantisation\<close>

lemma adjustInputRotationSpeed_cases:
  "adjustInputRotationSpeed v =
     (if v = 0 then 0 else if v < 20 then 10 else if v < 40 then 30 else if v < 60 then 50
      else if v < 80 then 70 else if v < 95 then 90 else 100)"
  by (simp add: adjustInputRotationSpeed_def fanRotationSpeedNormalized_def)

text \<open>
  Claim C10. \<^verbatim>\<open>adjustInputRotationSpeed\<close> is idempotent on every integer input; every
  output that is not 0 is in the table \<^verbatim>\<open>[10, 30, 50, 70, 90, 100]\<close>; every entry
  of the table is mapped to itself; so a snapped value that comes back into the set
  handler gives the same level and the same device speed.
\<close>

theorem adjustInputRotationSpeed_idempotent:
  "adjustInputRotationSpeed (adjustInputRotationSpeed v) = adjustInputRotationSpeed v \<and>
   (adjustInputRotationSpeed v \<noteq> 0 \<longrightarrow>
      adjustInputRotationSpeed v \<in> set fanRotationSpeedNormalized) \<and>
   map adjustInputRotationSpeed fanRotationSpeedNormalized = fanRotationSpeedNormalized \<and>
   dpsRotationSpeed (adjustInputRotationSpeed (adjustInputRotationSpeed v)) =
     dpsRotationSpeed (adjustInputRotationSpeed v)"
  by (simp add: adjustInputRotationSpeed_cases fanRotationSpeedNormalized_def)

theorem adjustInputRotationSpeed_idempotent_witness:
  "adjustInputRotationSpeed 42 \<noteq> 0 \<and> adjustInputRotationSpeed 42 = 50 \<and>
   adjustInputRotationSpeed (adjustInputRotationSpeed 42) = adjustInputRotationSpeed 42 \<and>
   adjustInputRotationSpeed 42 \<in> set fanRotationSpeedNormalized \<and>
   dpsRotationSpeed (adjustInputRotationSpeed 42) = 3"
  using adjustInputRotationSpeed_idempotent [of 42]
  by (simp add: adjustInputRotationSpeed_cases dpsRotationSpeed_def fanRotationSpeedNormalized_def)

section \<open>Fields after each operation\<close>

lemma map_of_suspend:
  "map_of (map (\<lambda>(d, k, q). if d = c then (d, k, p) else (d, k, q)) ts) x =
     (if x = c then map_option (\<lambda>(k, q). (k, p)) (map_of ts c) else map_of ts x)"
  by (induction ts) auto

lemma map_of_finish:
  "map_of (filter (\<lambda>t. fst t \<noteq> c) ts) x = (if x = c then None else map_of ts x)"
  by (induction ts) auto

lemma map_of_settle:
  "map_of (map (\<lambda>(d, r'). if d = c \<and> r' = Pending then (d, r) else (d, r')) cs) x =
     (if x = c \<and> map_of cs c = Some Pending then Some r else map_of cs x)"
  by (induction cs) auto

lemma setTimeout_sel [simp]:
  "state (setTimeout cb ms s) = state s"
  "mutex (setTimeout cb ms s) = mutex s"
  "isGetStatusInProgress (setTimeout cb ms s) = isGetStatusInProgress s"
  "deviceCommunicator (setTimeout cb ms s) = deviceCommunicator s"
  "lightService (setTimeout cb ms s) = lightService s"
  "getDeviceStatusTimer (setTimeout cb ms s) = getDeviceStatusTimer s"
  "fanSetSpeedDebounceTimer (setTimeout cb ms s) = fanSetSpeedDebounceTimer s"
  "timers (setTimeout cb ms s) = timers s @ [(nextTimer s, cb, ms)]"
  "nextTimer (setTimeout cb ms s) = nextTimer s + 1"
  "tasks (setTimeout cb ms s) = tasks s"
  "nextTask (setTimeout cb ms s) = nextTask s"
  "calls (setTimeout cb ms s) = calls s"
  "deviceCalls (setTimeout cb ms s) = deviceCalls s"
  "dispatched (setTimeout cb ms s) = dispatched s"
  "updated (setTimeout cb ms s) = updated s"
  by (simp_all add: setTimeout_def)

lemma clearTimeout_sel [simp]:
  "state (clearTimeout h s) = state s"
  "mutex (clearTimeout h s) = mutex s"
  "isGetStatusInProgress (clearTimeout h s) = isGetStatusInProgress s"
  "deviceCommunicator (clearTimeout h s) = deviceCommunicator s"
  "lightService (clearTimeout h s) = lightService s"
  "getDeviceStatusTimer (clearTimeout h s) = getDeviceStatusTimer s"
  "fanSetSpeedDebounceTimer (clearTimeout h s) = fanSetSpeedDebounceTimer s"
  "timers (clearTimeout h s) = filter (\<lambda>t. fst t \<noteq> h) (timers s)"
  "nextTimer (clearTimeout h s) = nextTimer s"
  "tasks (clearTimeout h s) = tasks s"
  "nextTask (clearTimeout h s) = nextTask s"
  "calls (clearTimeout h s) = calls s"
  "deviceCalls (clearTimeout h s) = deviceCalls s"
  "dispatched (clearTimeout h s) = dispatched s"
  "updated (clearTimeout h s) = updated s"
  by (simp_all add: clearTimeout_def)

lemma suspend_sel [simp]:
  "state (suspend c p s) = state s"
  "mutex (suspend c p s) = mutex s"
  "isGetStatusInProgress (suspend c p s) = isGetStatusInProgress s"
  "deviceCommunicator (suspend c p s) = deviceCommunicator s"
  "lightService (suspend c p s) = lightService s"
  "getDeviceStatusTimer (suspend c p s) = getDeviceStatusTimer s"
  "fanSetSpeedDebounceTimer (suspend c p s) = fanSetSpeedDebounceTimer s"
  "timers (suspend c p s) = timers s"
  "nextTimer (suspend c p s) = nextTimer s"
  "tasks (suspend c p s) = map (\<lambda>(d, k, q). if d = c then (d, k, p) else (d, k, q)) (tasks s)"
  "nextTask (suspend c p s) = nextTask s"
  "calls (suspend c p s) = calls s"
  "deviceCalls (suspend c p s) = deviceCalls s"
  "dispatched (suspend c p s) = dispatched s"
  "updated (suspend c p s) = updated s"
  by (simp_all add: suspend_def)

lemma finish_sel [simp]:
  "state (finish c s) = state s"
  "mutex (finish c s) = mutex s"
  "isGetStatusInProgress (finish c s) = isGetStatusInProgress s"
  "deviceCommunicator (finish c s) = deviceCommunicator s"
  "lightService (finish c s) = lightService s"
  "getDeviceStatusTimer (finish c s) = getDeviceStatusTimer s"
  "fanSetSpeedDebounceTimer (finish c s) = fanSetSpeedDebounceTimer s"
  "timers (finish c s) = timers s"
  "nextTimer (finish c s) = nextTimer s"
  "tasks (finish c s) = filter (\<lambda>t. fst t \<noteq> c) (tasks s)"
  "nextTask (finish c s) = nextTask s"
  "calls (finish c s) = calls s"
  "deviceCalls (finish c s) = deviceCalls s"
  "dispatched (finish c s) = dispatched s"
  "updated (finish c s) = updated s"
  by (simp_all add: finish_def)

lemma settle_sel [simp]:
  "state (settle c r s) = state s"
  "mutex (settle c r s) = mutex s"
  "isGetStatusInProgress (settle c r s) = isGetStatusInProgress s"
  "deviceCommunicator (settle c r s) = deviceCommunicator s"
  "lightService (settle c r s) = lightService s"
  "getDeviceStatusTimer (settle c r s) = getDeviceStatusTimer s"
  "fanSetSpeedDebounceTimer (settle c r s) = fanSetSpeedDebounceTimer s"
  "timers (settle c r s) = timers s"
  "nextTimer (settle c r s) = nextTimer s"
  "tasks (settle c r s) = tasks s"
  "nextTask (settle c r s) = nextTask s"
  "calls (settle c r s) =
     map (\<lambda>(d, r'). if d = c \<and> r' = Pending then (d, r) else (d, r')) (calls s)"
  "deviceCalls (settle c r s) = deviceCalls s"
  "dispatched (settle c r s) = dispatched s"
  "updated (settle c r s) = updated s"
  by (simp_all add: settle_def)

lemma await_lock_sel [simp]:
  "state (await_lock k s) = state s"
  "mutex (await_lock k s) = fst (lock (nextTask s) (mutex s))"
  "isGetStatusInProgress (await_lock k s) = isGetStatusInProgress s"
  "deviceCommunicator (await_lock k s) = deviceCommunicator s"
  "lightService (await_lock k s) = lightService s"
  "getDeviceStatusTimer (await_lock k s) = getDeviceStatusTimer s"
  "fanSetSpeedDebounceTimer (await_lock k s) = fanSetSpeedDebounceTimer s"
  "timers (await_lock k s) = timers s"
  "nextTimer (await_lock k s) = nextTimer s"
  "tasks (await_lock k s) =
     tasks s @ [(nextTask s, k, if isLocked (mutex s) then AwaitLock else LockGranted)]"
  "nextTask (await_lock k s) = nextTask s + 1"
  "calls (await_lock k s) = calls s"
  "deviceCalls (await_lock k s) = deviceCalls s"
  "dispatched (await_lock k s) = dispatched s"
  "updated (await_lock k s) = updated s"
  by (simp_all add: await_lock_def lock_def Let_def)

lemma releaseMutex_sel [simp]:
  "state (releaseMutex s) = state s"
  "mutex (releaseMutex s) = fst (unlock (mutex s))"
  "isGetStatusInProgress (releaseMutex s) = isGetStatusInProgress s"
  "deviceCommunicator (releaseMutex s) = deviceCommunicator s"
  "lightService (releaseMutex s) = lightService s"
  "getDeviceStatusTimer (releaseMutex s) = getDeviceStatusTimer s"
  "fanSetSpeedDebounceTimer (releaseMutex s) = fanSetSpeedDebounceTimer s"
  "timers (releaseMutex s) = timers s"
  "nextTimer (releaseMutex s) = nextTimer s"
  "tasks (releaseMutex s) =
     (case waitingQueue (mutex s) of
        [] \<Rightarrow> tasks s
      | d # q \<Rightarrow> map (\<lambda>(d', k, q). if d' = d then (d', k, LockGranted) else (d', k, q)) (tasks s))"
  "nextTask (releaseMutex s) = nextTask s"
  "calls (releaseMutex s) = calls s"
  "deviceCalls (releaseMutex s) = deviceCalls s"
  "dispatched (releaseMutex s) = dispatched s"
  "updated (releaseMutex s) = updated s"
  by (simp_all add: releaseMutex_def unlock_def Let_def split: list.splits)

lemma updateCharacteristic_sel [simp]:
  "state (updateCharacteristic ch v s) = state s"
  "mutex (updateCharacteristic ch v s) = mutex s"
  "isGetStatusInProgress (updateCharacteristic ch v s) = isGetStatusInProgress s"
  "deviceCommunicator (updateCharacteristic ch v s) = deviceCommunicator s"
  "lightService (updateCharacteristic ch v s) = lightService s"
  "getDeviceStatusTimer (updateCharacteristic ch v s) = getDeviceStatusTimer s"
  "fanSetSpeedDebounceTimer (updateCharacteristic ch v s) = fanSetSpeedDebounceTimer s"
  "timers (updateCharacteristic ch v s) = timers s"
  "nextTimer (updateCharacteristic ch v s) = nextTimer s"
  "tasks (updateCharacteristic ch v s) = tasks s"
  "nextTask (updateCharacteristic ch v s) = nextTask s"
  "calls (updateCharacteristic ch v s) = calls s"
  "deviceCalls (updateCharacteristic ch v s) = deviceCalls s"
  "dispatched (updateCharacteristic ch v s) = dispatched s"
  "updated (updateCharacteristic ch v s) = updated s @ [(ch, v)]"
  by (simp_all add: updateCharacteristic_def)

lemma updateAccessoryState_sel [simp]:
  "state (updateAccessoryState s) = state s"
  "mutex (updateAccessoryState s) = mutex s"
  "isGetStatusInProgress (updateAccessoryState s) = isGetStatusInProgress s"
  "deviceCommunicator (updateAccessoryState s) = deviceCommunicator s"
  "lightService (updateAccessoryState s) = lightService s"
  "getDeviceStatusTimer (updateAccessoryState s) = getDeviceStatusTimer s"
  "fanSetSpeedDebounceTimer (updateAccessoryState s) = fanSetSpeedDebounceTimer s"
  "timers (updateAccessoryState s) = timers s"
  "nextTimer (updateAccessoryState s) = nextTimer s"
  "tasks (updateAccessoryState s) = tasks s"
  "nextTask (updateAccessoryState s) = nextTask s"
  "calls (updateAccessoryState s) = calls s"
  "deviceCalls (updateAccessoryState s) = deviceCalls s"
  "dispatched (updateAccessoryState s) = dispatched s"
  by (simp_all add: updateAccessoryState_def Let_def)

lemma updateDeviceState_sel [simp]:
  "mutex (updateDeviceState st s) = mutex s"
  "isGetStatusInProgress (updateDeviceState st s) = isGetStatusInProgress s"
  "deviceCommunicator (updateDeviceState st s) = deviceCommunicator s"
  "lightService (updateDeviceState st s) = lightService s"
  "getDeviceStatusTimer (updateDeviceState st s) = getDeviceStatusTimer s"
  "fanSetSpeedDebounceTimer (updateDeviceState st s) = fanSetSpeedDebounceTimer s"
  "timers (updateDeviceState st s) = timers s"
  "nextTimer (updateDeviceState st s) = nextTimer s"
  "tasks (updateDeviceState st s) = tasks s"
  "nextTask (updateDeviceState st s) = nextTask s"
  "calls (updateDeviceState st s) = calls s"
  "deviceCalls (updateDeviceState st s) = deviceCalls s"
  "dispatched (updateDeviceState st s) = dispatched s"
  "updated (updateDeviceState st s) = updated s"
  by (simp_all add: updateDeviceState_def)



section \<open>Unfolding\<close>

lemmas seg_defs =
  getDeviceStatus_def getDeviceStatus_locked_def getDeviceStatus_connected_def
  getDeviceStatus_finally_def getDeviceStatus_read_def getDeviceStatus_catch_def
  scheduleNextPoll_def setDeviceValue_def setDeviceValue_locked_def
  setDeviceValue_connected_def setDeviceValue_finally_def setDeviceValue_catch_def
  setDeviceValueWithTimeout_def setDeviceValueWithTimeout_catch_def

text \<open>Everything needed to run the event loop on a concrete state.\<close>

lemmas eval_defs =
  seg_defs CreateCeilingFanAccessory_def Mutex_new_def lock_def unlock_def
  setTimeout_def clearTimeout_def suspend_def finish_def await_lock_def releaseMutex_def
  settle_def call_outcome_def task_of_def suspended_at_def pending_timer_def
  run_callback_def get_handler_def handleFanActiveStateGet_def handleFanRotationSpeedGet_def
  handleFanRotationDirectionGet_def handleLightOnGet_def handleFanActiveStateSet_def
  handleFanRotationSpeedSet_def handleFanRotationDirectionSet_def handleLightOnSet_def
  debounce_callback_def updateCharacteristic_def updateDeviceState_def
  updateAccessoryState_def throwErrorIfDeviceUnresponsive_def
  fanActiveValueToCharacteristicValue_def fanRotationSpeedValueToCharacteristicValue_def
  fanRotationDirectionValueToCharacteristicValue_def lightOnValueToCharacteristicValue_def
  adjustInputRotationSpeed_def fanRotationSpeedNormalized_def dpsRotationSpeed_def
  fanSetSpeedDebouncePeriod_def getDeviceStatusFastRetryPeriod_def getDeviceStatusPeriod_def
  getDeviceStatusConnectTimeout_def getDeviceStatusReadTimeout_def setDeviceStatusTimeout_def
  ACTIVE_def INACTIVE_def CLOCKWISE_def COUNTER_CLOCKWISE_def Let_def
  polls_in_flight_def debounce_pending_def next_poll_def example_status_def
  poll_connecting_def poll_reading_def light_connecting_def light_sending_def
  light_sending_late_def

section \<open>Tasks and call outcomes after each operation\<close>

lemma suspended_at_clearTimeout [simp]:
  "suspended_at c p (clearTimeout h s) = suspended_at c p s"
  by (simp add: suspended_at_def task_of_def)

lemma call_outcome_clearTimeout [simp]:
  "call_outcome c (clearTimeout h s) = call_outcome c s"
  by (simp add: call_outcome_def)

lemma call_outcome_settle:
  "call_outcome x (settle c r s) =
     (if x = c \<and> call_outcome c s = Some Pending then Some r else call_outcome x s)"
  by (simp add: call_outcome_def map_of_settle)

lemma call_outcome_setDeviceValue_finally:
  "call_outcome x (setDeviceValue_finally c s) =
     (if x = c \<and> call_outcome c s = Some Pending then Some Fulfilled else call_outcome x s)"
  by (simp add: setDeviceValue_finally_def call_outcome_settle) (simp add: call_outcome_def)

lemma call_outcome_setDeviceValue_catch:
  "call_outcome x (setDeviceValue_catch c s) =
     (if x = c \<and> call_outcome c s = Some Pending then Some Fulfilled else call_outcome x s)"
  by (simp add: setDeviceValue_catch_def call_outcome_setDeviceValue_finally)
     (simp add: call_outcome_def)

lemma deviceCalls_setDeviceValue_catch:
  "deviceCalls (setDeviceValue_catch c s) = deviceCalls s @ [DevDisconnect]"
  by (simp add: setDeviceValue_catch_def setDeviceValue_finally_def)

lemma task_of_suspend:
  "task_of x (suspend c p s) =
     (if x = c then map_option (\<lambda>(k, q). (k, p)) (task_of c s) else task_of x s)"
  by (simp add: task_of_def map_of_suspend)

lemma task_of_finish:
  "task_of x (finish c s) = (if x = c then None else task_of x s)"
  by (simp add: task_of_def map_of_finish)

lemma task_of_frame [simp]:
  "task_of x (setTimeout cb ms s) = task_of x s"
  "task_of x (clearTimeout h s) = task_of x s"
  "task_of x (settle c r s) = task_of x s"
  "task_of x (updateCharacteristic ch v s) = task_of x s"
  "task_of x (updateAccessoryState s) = task_of x s"
  "task_of x (updateDeviceState st s) = task_of x s"
  by (simp_all add: task_of_def)

lemma task_of_upd [simp]:
  "task_of x (s\<lparr>deviceCalls := dc\<rparr>) = task_of x s"
  "task_of x (s\<lparr>state := st\<rparr>) = task_of x s"
  "task_of x (s\<lparr>isGetStatusInProgress := b\<rparr>) = task_of x s"
  "task_of x (s\<lparr>getDeviceStatusTimer := h\<rparr>) = task_of x s"
  by (simp_all add: task_of_def)

text \<open>Releasing the mutex keeps every task and its function; it only moves an await point.\<close>

lemma task_of_releaseMutex:
  "map_option fst (task_of x (releaseMutex s)) = map_option fst (task_of x s)"
  by (cases "task_of x s")
     (auto simp: task_of_def map_of_suspend split: list.splits)

lemma task_gone_getDeviceStatus_catch: "task_of c (getDeviceStatus_catch c s) = None"
  by (simp add: getDeviceStatus_catch_def getDeviceStatus_finally_def scheduleNextPoll_def
      Let_def task_of_finish)

lemma task_gone_setDeviceValue_finally: "task_of c (setDeviceValue_finally c s) = None"
  by (simp add: setDeviceValue_finally_def task_of_finish)

lemma task_gone_setDeviceValue_catch: "task_of c (setDeviceValue_catch c s) = None"
  by (simp add: setDeviceValue_catch_def task_gone_setDeviceValue_finally)

lemma mutex_getDeviceStatus_catch:
  "mutex (getDeviceStatus_catch c s) = fst (unlock (mutex s))"
  by (simp add: getDeviceStatus_catch_def getDeviceStatus_finally_def scheduleNextPoll_def Let_def)

lemma mutex_setDeviceValue_finally:
  "mutex (setDeviceValue_finally c s) = fst (unlock (mutex s))"
  by (simp add: setDeviceValue_finally_def)

lemma mutex_setDeviceValue_catch:
  "mutex (setDeviceValue_catch c s) = fst (unlock (mutex s))"
  by (simp add: setDeviceValue_catch_def mutex_setDeviceValue_finally)

lemma step_settles_gone:
  assumes "task_of c s = None"
  shows "step (ConnectSettles c ok) s = s" "step (ReadSettles c r) s = s"
    "step (SetSettles c ok) s = s" "step (Resume c) s = s"
  using assms by (simp_all add: suspended_at_def)

section \<open>The get handlers\<close>

lemma state_getDeviceStatus [simp]: "state (getDeviceStatus s) = state s"
  by (simp add: seg_defs Let_def)

lemma get_handler_result:
  "get_handler projection s =
     (if isValid (state s) then Inr (projection (getDeviceStatus s))
      else Inl SERVICE_COMMUNICATION_FAILURE, getDeviceStatus s)"
  by (simp add: get_handler_def throwErrorIfDeviceUnresponsive_def Let_def)

lemma projections_getDeviceStatus:
  "fanActiveValueToCharacteristicValue (getDeviceStatus s) = fanActiveValueToCharacteristicValue s"
  "fanRotationSpeedValueToCharacteristicValue (getDeviceStatus s) =
     fanRotationSpeedValueToCharacteristicValue s"
  "fanRotationDirectionValueToCharacteristicValue (getDeviceStatus s) =
     fanRotationDirectionValueToCharacteristicValue s"
  "lightOnValueToCharacteristicValue (getDeviceStatus s) = lightOnValueToCharacteristicValue s"
  by (simp_all add: fanActiveValueToCharacteristicValue_def
      fanRotationSpeedValueToCharacteristicValue_def
      fanRotationDirectionValueToCharacteristicValue_def lightOnValueToCharacteristicValue_def)

lemma state_getDeviceStatus_catch:
  "state (getDeviceStatus_catch c s) = (state s)\<lparr>isValid := False\<rparr>"
  by (simp add: seg_defs Let_def)

lemma state_getDeviceStatus_read:
  "state (getDeviceStatus_read c status s) =
     \<lparr>fanOn = dps60 status, fanSpeed = dps62 status,
      fanRotationClockwise = (dps63 status \<noteq> ''forward''), lightOn = dps20 status,
      isValid = True\<rparr>"
  by (simp add: seg_defs Let_def updateDeviceState_def)

text \<open>
  Claim C7. A poll that fails leaves \<^verbatim>\<open>state.isValid = false\<close>. Each of the four get
  handlers starts \<^verbatim>\<open>getDeviceStatus\<close> without waiting for it (the accessory it leaves
  behind is the one after the start of \<^verbatim>\<open>getDeviceStatus\<close>); then, when the cache is
  not valid, it fails with \<^verbatim>\<open>SERVICE_COMMUNICATION_FAILURE\<close> and returns no value, and
  when the cache is valid it returns the projection of the cache as it is.
\<close>

theorem stale_cache_rejection:
  assumes "(handler, projection) \<in> set
     [(handleFanActiveStateGet, fanActiveValueToCharacteristicValue),
      (handleFanRotationSpeedGet, fanRotationSpeedValueToCharacteristicValue),
      (handleFanRotationDirectionGet, fanRotationDirectionValueToCharacteristicValue),
      (handleLightOnGet, lightOnValueToCharacteristicValue)]"
  shows "\<not> isValid (state (getDeviceStatus_catch c s0)) \<and>
         (\<not> isValid (state s) \<longrightarrow> fst (handler s) = Inl SERVICE_COMMUNICATION_FAILURE) \<and>
         (isValid (state s) \<longrightarrow> fst (handler s) = Inr (projection s)) \<and>
         snd (handler s) = getDeviceStatus s"
  using assms
  by (auto simp: handleFanActiveStateGet_def handleFanRotationSpeedGet_def
      handleFanRotationDirectionGet_def handleLightOnGet_def get_handler_result
      projections_getDeviceStatus state_getDeviceStatus_catch)

text \<open>
  Before the first poll the cache is not valid and the getter of the active state fails;
  after a poll that read speed 3, the getter of the rotation speed returns 50.
\<close>

theorem stale_cache_rejection_witness:
  "\<not> isValid (state (CreateCeilingFanAccessory True)) \<and>
   fst (handleFanActiveStateGet (CreateCeilingFanAccessory True)) =
     Inl SERVICE_COMMUNICATION_FAILURE \<and>
   isValid (state (step (ReadSettles 0 (Some example_status)) poll_reading)) \<and>
   fst (handleFanRotationSpeedGet (step (ReadSettles 0 (Some example_status)) poll_reading)) =
     Inr (CNum 50)"
proof -
  let ?s = "step (ReadSettles 0 (Some example_status)) poll_reading"
  have a: "\<not> isValid (state (CreateCeilingFanAccessory True))"
    by (simp add: CreateCeilingFanAccessory_def)
  have b: "isValid (state ?s)"
    by (simp add: eval_defs)
  have p: "fanRotationSpeedValueToCharacteristicValue ?s = CNum 50"
    by (simp add: eval_defs)
  have "fst (handleFanActiveStateGet (CreateCeilingFanAccessory True)) =
          Inl SERVICE_COMMUNICATION_FAILURE"
    using a stale_cache_rejection [of handleFanActiveStateGet
        fanActiveValueToCharacteristicValue 0 "CreateCeilingFanAccessory True"
        "CreateCeilingFanAccessory True"]
    by simp
  moreover have "fst (handleFanRotationSpeedGet ?s) = Inr (CNum 50)"
    using b p stale_cache_rejection [of handleFanRotationSpeedGet
        fanRotationSpeedValueToCharacteristicValue 0 ?s ?s]
    by simp
  ultimately show ?thesis using a b by simp
qed

section \<open>The cadence of the poller\<close>

lemma timers_scheduleNextPoll:
  "(getDeviceStatusTimer (scheduleNextPoll b s),
     PollTick, if b then getDeviceStatusFastRetryPeriod else getDeviceStatusPeriod)
   \<in> set (timers (scheduleNextPoll b s))"
  by (simp add: scheduleNextPoll_def Let_def)

lemma next_poll_read: "next_poll (getDeviceStatus_read c status s) 10000"
  unfolding next_poll_def getDeviceStatus_read_def Let_def
  using timers_scheduleNextPoll [of False] by (simp add: getDeviceStatusPeriod_def)

lemma next_poll_catch: "next_poll (getDeviceStatus_catch c s) 1000"
  unfolding next_poll_def getDeviceStatus_catch_def Let_def
  using timers_scheduleNextPoll [of True] by (simp add: getDeviceStatusFastRetryPeriod_def)

text \<open>
  Claim C8. Let \<open>c\<close> be a \<^verbatim>\<open>getDeviceStatus\<close> activation suspended at the await \<open>p\<close>.
  When its read is fulfilled, the cache is valid and the stored poll timer is pending
  with 10000 ms. When its read is rejected, when its \<^verbatim>\<open>connect()\<close> is rejected, or
  when the timer of the race it is waiting in fires, the cache is invalid and the stored
  poll timer is pending with 1000 ms. These are all the ways a poll attempt ends.
\<close>

theorem adaptive_cadence:
  assumes "suspended_at c p s = Some GetStatus"
  shows "(p = AwaitRead \<longrightarrow>
            next_poll (step (ReadSettles c (Some status)) s) 10000 \<and>
            isValid (state (step (ReadSettles c (Some status)) s)) \<and>
            next_poll (step (ReadSettles c None) s) 1000 \<and>
            \<not> isValid (state (step (ReadSettles c None) s))) \<and>
         (p = AwaitConnect \<longrightarrow>
            next_poll (step (ConnectSettles c False) s) 1000 \<and>
            \<not> isValid (state (step (ConnectSettles c False) s))) \<and>
         (pending_timer h s = Some (RaceTimeout c p, ms) \<longrightarrow>
            next_poll (step (TimerFires h) s) 1000 \<and>
            \<not> isValid (state (step (TimerFires h) s)))"
  using assms
  by (auto simp: next_poll_read next_poll_catch state_getDeviceStatus_catch
      state_getDeviceStatus_read run_callback_def)

theorem adaptive_cadence_witness:
  "suspended_at 0 AwaitRead poll_reading = Some GetStatus \<and>
   pending_timer 2 poll_reading = Some (RaceTimeout 0 AwaitRead, 1000) \<and>
   next_poll (step (ReadSettles 0 (Some example_status)) poll_reading) 10000 \<and>
   next_poll (step (ReadSettles 0 None) poll_reading) 1000 \<and>
   next_poll (step (TimerFires 2) poll_reading) 1000 \<and>
   suspended_at 0 AwaitConnect poll_connecting = Some GetStatus \<and>
   next_poll (step (ConnectSettles 0 False) poll_connecting) 1000"
proof -
  have a: "suspended_at 0 AwaitRead poll_reading = Some GetStatus"
    by (simp add: eval_defs)
  have b: "pending_timer 2 poll_reading = Some (RaceTimeout 0 AwaitRead, 1000)"
    by (simp add: eval_defs)
  have c: "suspended_at 0 AwaitConnect poll_connecting = Some GetStatus"
    by (simp add: eval_defs)
  show ?thesis
    using a b c adaptive_cadence [OF a, of example_status 2 1000]
      adaptive_cadence [OF c, of example_status 1 3000]
    by simp
qed

section \<open>The outcome of a dispatch\<close>

lemma map_of_append_found:
  "map_of xs x = Some y \<Longrightarrow> map_of (xs @ ys) x = Some y"
  by (induction xs) auto

lemma call_outcome_suspend [simp]:
  "call_outcome x (suspend c p s) = call_outcome x s"
  "call_outcome x (s\<lparr>deviceCalls := dc\<rparr>) = call_outcome x s"
  by (simp_all add: call_outcome_def)

lemma call_outcome_setDeviceValue_steps [simp]:
  "call_outcome x (setDeviceValue_locked c s) = call_outcome x s"
  "call_outcome x (setDeviceValue_connected c dps v s) = call_outcome x s"
  by (simp_all add: setDeviceValue_locked_def setDeviceValue_connected_def)

lemma call_outcome_frame [simp]:
  "call_outcome x (setTimeout cb ms s) = call_outcome x s"
  "call_outcome x (finish c s) = call_outcome x s"
  "call_outcome x (releaseMutex s) = call_outcome x s"
  "call_outcome x (await_lock k s) = call_outcome x s"
  "call_outcome x (updateCharacteristic ch v s) = call_outcome x s"
  "call_outcome x (updateAccessoryState s) = call_outcome x s"
  "call_outcome x (updateDeviceState st s) = call_outcome x s"
  "call_outcome x (s\<lparr>state := a\<rparr>) = call_outcome x s"
  "call_outcome x (s\<lparr>isGetStatusInProgress := b\<rparr>) = call_outcome x s"
  "call_outcome x (s\<lparr>getDeviceStatusTimer := h\<rparr>) = call_outcome x s"
  "call_outcome x (s\<lparr>fanSetSpeedDebounceTimer := d\<rparr>) = call_outcome x s"
  by (simp_all add: call_outcome_def)

lemma call_outcome_poll_segments [simp]:
  "call_outcome x (getDeviceStatus s) = call_outcome x s"
  "call_outcome x (getDeviceStatus_locked c s) = call_outcome x s"
  "call_outcome x (getDeviceStatus_connected c s) = call_outcome x s"
  "call_outcome x (getDeviceStatus_read c status s) = call_outcome x s"
  "call_outcome x (getDeviceStatus_catch c s) = call_outcome x s"
  "call_outcome x (handleFanRotationSpeedSet v s) = call_outcome x s"
  by (simp_all add: getDeviceStatus_def getDeviceStatus_locked_def
      getDeviceStatus_connected_def getDeviceStatus_read_def getDeviceStatus_catch_def
      getDeviceStatus_finally_def scheduleNextPoll_def handleFanRotationSpeedSet_def Let_def
      split: option.splits)

lemma call_outcome_setDeviceValueWithTimeout:
  assumes "call_outcome x s = Some r"
  shows "call_outcome x (setDeviceValueWithTimeout dps v s) = Some r"
proof -
  have "map_of (calls s @ [(nextTask s, Pending)]) x = Some r"
    using assms unfolding call_outcome_def by (rule map_of_append_found)
  then show ?thesis
    by (simp add: setDeviceValueWithTimeout_def setDeviceValue_def Let_def)
       (simp add: call_outcome_def)
qed

lemma pending_not_rejected_callback:
  assumes "call_outcome c s = Some Pending" "cb \<noteq> DispatchTimeout c"
  shows "not_rejected c (run_callback cb s)"
  using assms
  by (cases cb)
     (auto simp: run_callback_def not_rejected_def debounce_callback_def
        call_outcome_setDeviceValueWithTimeout setDeviceValueWithTimeout_catch_def
        call_outcome_settle)

lemma pending_not_rejected_step:
  assumes "call_outcome c s = Some Pending"
    "\<forall>h ms. ev = TimerFires h \<longrightarrow> pending_timer h s \<noteq> Some (DispatchTimeout c, ms)"
  shows "not_rejected c (step ev s)"
proof (cases ev)
  case (TimerFires h)
  show ?thesis
  proof (cases "pending_timer h s")
    case None
    with TimerFires assms(1) show ?thesis by (simp add: not_rejected_def)
  next
    case (Some t)
    obtain cb ms where t: "t = (cb, ms)" by (cases t)
    with Some TimerFires assms(2) have "cb \<noteq> DispatchTimeout c" by auto
    moreover have "call_outcome c (clearTimeout h s) = Some Pending"
      using assms(1) by simp
    ultimately have "not_rejected c (run_callback cb (clearTimeout h s))"
      using pending_not_rejected_callback by blast
    with TimerFires Some t show ?thesis by simp
  qed
next
  case (HomeKitGet ch)
  then show ?thesis
    using assms(1)
    by (cases ch)
       (simp_all add: handleFanActiveStateGet_def handleFanRotationSpeedGet_def
          handleFanRotationDirectionGet_def handleLightOnGet_def get_handler_result
          not_rejected_def)
qed (use assms(1) in \<open>auto simp: not_rejected_def handleFanActiveStateSet_def
      handleFanRotationDirectionSet_def handleLightOnSet_def
      call_outcome_setDeviceValueWithTimeout call_outcome_setDeviceValue_finally
      call_outcome_setDeviceValue_catch
      split: option.splits kind.splits\<close>)


text \<open>
  Claim C2, as the code has it. While the promise of a \<^verbatim>\<open>setDeviceValueWithTimeout\<close>
  call is pending: when its timer fires, the call is rejected with
  \<^verbatim>\<open>SERVICE_COMMUNICATION_FAILURE\<close>; when \<^verbatim>\<open>connect()\<close> or \<^verbatim>\<open>set()\<close> is rejected
  before that, \<^verbatim>\<open>setDeviceValue\<close> disconnects and the call is fulfilled, with no
  failure signal; and no event other than its timer firing rejects the call.
\<close>

theorem dispatch_failure_signal:
  assumes "call_outcome c s = Some Pending"
  shows "(pending_timer h s = Some (DispatchTimeout c, ms) \<longrightarrow>
            call_outcome c (step (TimerFires h) s) =
              Some (Rejected SERVICE_COMMUNICATION_FAILURE)) \<and>
         (suspended_at c AwaitConnect s = Some (SetValue dps v) \<longrightarrow>
            call_outcome c (step (ConnectSettles c False) s) = Some Fulfilled \<and>
            deviceCalls (step (ConnectSettles c False) s) = deviceCalls s @ [DevDisconnect]) \<and>
         (suspended_at c AwaitSet s = Some (SetValue dps v) \<longrightarrow>
            call_outcome c (step (SetSettles c False) s) = Some Fulfilled \<and>
            deviceCalls (step (SetSettles c False) s) = deviceCalls s @ [DevDisconnect]) \<and>
         (call_outcome c (step ev s) = Some (Rejected e) \<longrightarrow>
            (\<exists>h' ms'. ev = TimerFires h' \<and>
               pending_timer h' s = Some (DispatchTimeout c, ms')))"
proof -
  have only: "\<exists>h' ms'. ev = TimerFires h' \<and> pending_timer h' s = Some (DispatchTimeout c, ms')"
    if r: "call_outcome c (step ev s) = Some (Rejected e)"
  proof (rule ccontr)
    assume "\<not> (\<exists>h' ms'. ev = TimerFires h' \<and>
      pending_timer h' s = Some (DispatchTimeout c, ms'))"
    then have "\<forall>h ms. ev = TimerFires h \<longrightarrow> pending_timer h s \<noteq> Some (DispatchTimeout c, ms)"
      by blast
    with assms have "not_rejected c (step ev s)"
      by (rule pending_not_rejected_step)
    with r show False by (simp add: not_rejected_def)
  qed
  have rest: "(pending_timer h s = Some (DispatchTimeout c, ms) \<longrightarrow>
            call_outcome c (step (TimerFires h) s) =
              Some (Rejected SERVICE_COMMUNICATION_FAILURE)) \<and>
         (suspended_at c AwaitConnect s = Some (SetValue dps v) \<longrightarrow>
            call_outcome c (step (ConnectSettles c False) s) = Some Fulfilled \<and>
            deviceCalls (step (ConnectSettles c False) s) = deviceCalls s @ [DevDisconnect]) \<and>
         (suspended_at c AwaitSet s = Some (SetValue dps v) \<longrightarrow>
            call_outcome c (step (SetSettles c False) s) = Some Fulfilled \<and>
            deviceCalls (step (SetSettles c False) s) = deviceCalls s @ [DevDisconnect])"
    using assms
    by (simp add: run_callback_def setDeviceValueWithTimeout_catch_def call_outcome_settle
        call_outcome_setDeviceValue_catch deviceCalls_setDeviceValue_catch)
  from only rest show ?thesis by blast
qed

theorem dispatch_failure_signal_witness:
  "call_outcome 0 light_connecting = Some Pending \<and>
   pending_timer 1 light_connecting = Some (DispatchTimeout 0, 2500) \<and>
   suspended_at 0 AwaitConnect light_connecting = Some (SetValue 20 (VBool True)) \<and>
   call_outcome 0 (step (TimerFires 1) light_connecting) =
     Some (Rejected SERVICE_COMMUNICATION_FAILURE) \<and>
   call_outcome 0 (step (ConnectSettles 0 False) light_connecting) = Some Fulfilled \<and>
   call_outcome 0 light_sending = Some Pending \<and>
   suspended_at 0 AwaitSet light_sending = Some (SetValue 20 (VBool True)) \<and>
   call_outcome 0 (step (SetSettles 0 False) light_sending) = Some Fulfilled"
proof -
  have a: "call_outcome 0 light_connecting = Some Pending"
    by (simp add: eval_defs)
  have b: "pending_timer 1 light_connecting = Some (DispatchTimeout 0, 2500)"
    by (simp add: eval_defs)
  have c: "suspended_at 0 AwaitConnect light_connecting = Some (SetValue 20 (VBool True))"
    by (simp add: eval_defs)
  have d: "call_outcome 0 light_sending = Some Pending"
    by (simp add: eval_defs)
  have e: "suspended_at 0 AwaitSet light_sending = Some (SetValue 20 (VBool True))"
    by (simp add: eval_defs)
  show ?thesis
    using a b c d e
      dispatch_failure_signal [OF a, where h = 1 and ms = 2500 and dps = 20 and v = "VBool True"
        and ev = "TimerFires 1" and e = SERVICE_COMMUNICATION_FAILURE]
      dispatch_failure_signal [OF d, where h = 1 and ms = 2500 and dps = 20 and v = "VBool True"
        and ev = "TimerFires 1" and e = SERVICE_COMMUNICATION_FAILURE]
    by (simp del: step.simps)
qed

text \<open>
  The claim as the specification states it fails: HomeKit switches the light on, the
  mutex is granted, \<^verbatim>\<open>connect()\<close> is rejected. The device was only connected to and
  disconnected from, and the call is fulfilled.
\<close>

theorem dispatch_failure_counterexample:
  "deviceCalls (run [HomeKitSetLightOn True, Resume 0, ConnectSettles 0 False]
      (CreateCeilingFanAccessory True)) = [DevConnect, DevDisconnect] \<and>
   call_outcome 0 (run [HomeKitSetLightOn True, Resume 0, ConnectSettles 0 False]
      (CreateCeilingFanAccessory True)) = Some Fulfilled"
  by (simp add: eval_defs)

section \<open>Invariants of the event loop: proofs\<close>

subsection \<open>Timer handles are never reused\<close>


lemma timers_ok_upd [simp]:
  "timers_ok (s\<lparr>state := a\<rparr>) = timers_ok s"
  "timers_ok (s\<lparr>isGetStatusInProgress := b\<rparr>) = timers_ok s"
  "timers_ok (s\<lparr>deviceCalls := dc\<rparr>) = timers_ok s"
  "timers_ok (s\<lparr>getDeviceStatusTimer := h\<rparr>) = timers_ok s"
  "timers_ok (s\<lparr>fanSetSpeedDebounceTimer := d\<rparr>) = timers_ok s"
  "timers_ok (s\<lparr>dispatched := di, calls := ca\<rparr>) = timers_ok s"
  "timers_ok (suspend c p s) = timers_ok s"
  "timers_ok (finish c s) = timers_ok s"
  "timers_ok (settle c r s) = timers_ok s"
  "timers_ok (await_lock k s) = timers_ok s"
  "timers_ok (releaseMutex s) = timers_ok s"
  "timers_ok (updateCharacteristic ch v s) = timers_ok s"
  "timers_ok (updateAccessoryState s) = timers_ok s"
  "timers_ok (updateDeviceState st s) = timers_ok s"
  by (simp_all add: timers_ok_def)

lemma timers_ok_setTimeout [simp]: "timers_ok s \<Longrightarrow> timers_ok (setTimeout cb ms s)"
  by (auto simp: timers_ok_def less_Suc_eq)

lemma timers_ok_clearTimeout [simp]: "timers_ok s \<Longrightarrow> timers_ok (clearTimeout h s)"
  by (auto simp: timers_ok_def distinct_map_filter)

lemma timers_ok_segments:
  assumes "timers_ok s"
  shows "timers_ok (getDeviceStatus s)"
    "timers_ok (getDeviceStatus_locked c s)"
    "timers_ok (getDeviceStatus_connected c s)"
    "timers_ok (getDeviceStatus_read c status s)"
    "timers_ok (getDeviceStatus_catch c s)"
    "timers_ok (setDeviceValue_locked c s)"
    "timers_ok (setDeviceValue_connected c dps v s)"
    "timers_ok (setDeviceValue_finally c s)"
    "timers_ok (setDeviceValue_catch c s)"
    "timers_ok (setDeviceValueWithTimeout dps v s)"
    "timers_ok (setDeviceValueWithTimeout_catch c s)"
    "timers_ok (handleFanRotationSpeedSet x s)"
  using assms
  by (simp_all add: seg_defs Let_def handleFanRotationSpeedSet_def split: option.splits)

lemma timers_ok_run_callback: "timers_ok s \<Longrightarrow> timers_ok (run_callback cb s)"
  by (cases cb) (simp_all add: run_callback_def timers_ok_segments debounce_callback_def)

lemma timers_ok_step: "timers_ok s \<Longrightarrow> timers_ok (step e s)"
proof (cases e)
  case (HomeKitGet ch)
  assume "timers_ok s"
  then show ?thesis
    using HomeKitGet
    by (cases ch)
       (simp_all add: handleFanActiveStateGet_def handleFanRotationSpeedGet_def
          handleFanRotationDirectionGet_def handleLightOnGet_def get_handler_result
          timers_ok_segments)
qed (auto simp: timers_ok_segments timers_ok_run_callback handleFanActiveStateSet_def
      handleFanRotationDirectionSet_def handleLightOnSet_def
      split: option.splits kind.splits)



subsection \<open>Task identities are never reused\<close>
lemma tasks_ok_upd [simp]:
  "tasks_ok (s\<lparr>state := a\<rparr>) = tasks_ok s"
  "tasks_ok (s\<lparr>isGetStatusInProgress := b\<rparr>) = tasks_ok s"
  "tasks_ok (s\<lparr>deviceCalls := dc\<rparr>) = tasks_ok s"
  "tasks_ok (s\<lparr>getDeviceStatusTimer := h\<rparr>) = tasks_ok s"
  "tasks_ok (s\<lparr>fanSetSpeedDebounceTimer := d\<rparr>) = tasks_ok s"
  "tasks_ok (s\<lparr>dispatched := di, calls := ca\<rparr>) = tasks_ok s"
  "tasks_ok (s\<lparr>mutex := m\<rparr>) = tasks_ok s"
  "tasks_ok (setTimeout cb ms s) = tasks_ok s"
  "tasks_ok (clearTimeout h s) = tasks_ok s"
  "tasks_ok (settle c r s) = tasks_ok s"
  "tasks_ok (updateCharacteristic ch v s) = tasks_ok s"
  "tasks_ok (updateAccessoryState s) = tasks_ok s"
  "tasks_ok (updateDeviceState st s) = tasks_ok s"
  by (simp_all add: tasks_ok_def)

lemma fst_set_pc [simp]:
  "fst ((\<lambda>(d, k, q). if d = c then (d, k, p) else (d, k, q)) t) = fst t"
  by (cases t) auto

lemma fst_comp_set_pc [simp]:
  "fst \<circ> (\<lambda>(d, k, q). if d = c then (d, k, p) else (d, k, q)) = fst"
  by (rule ext) simp

lemma tasks_ok_suspend [simp]: "tasks_ok (suspend c p s) = tasks_ok s"
  by (simp add: tasks_ok_def)

lemma tasks_ok_finish [simp]: "tasks_ok s \<Longrightarrow> tasks_ok (finish c s)"
  by (auto simp: tasks_ok_def distinct_map_filter)

lemma tasks_ok_await_lock [simp]: "tasks_ok s \<Longrightarrow> tasks_ok (await_lock k s)"
  by (auto simp: tasks_ok_def less_Suc_eq)

lemma tasks_ok_releaseMutex [simp]: "tasks_ok (releaseMutex s) = tasks_ok s"
proof (cases "waitingQueue (mutex s)")
  case Nil
  then show ?thesis by (simp add: releaseMutex_def unlock_def tasks_ok_def)
next
  case (Cons d q)
  then have "releaseMutex s =
      suspend d LockGranted (s\<lparr>mutex := (mutex s)\<lparr>waitingQueue := q, isLocked := True\<rparr>\<rparr>)"
    by (simp add: releaseMutex_def unlock_def)
  then show ?thesis by simp
qed

lemma tasks_ok_segments:
  assumes "tasks_ok s"
  shows "tasks_ok (getDeviceStatus s)"
    "tasks_ok (getDeviceStatus_locked c s)"
    "tasks_ok (getDeviceStatus_connected c s)"
    "tasks_ok (getDeviceStatus_read c status s)"
    "tasks_ok (getDeviceStatus_catch c s)"
    "tasks_ok (setDeviceValue_locked c s)"
    "tasks_ok (setDeviceValue_connected c dps v s)"
    "tasks_ok (setDeviceValue_finally c s)"
    "tasks_ok (setDeviceValue_catch c s)"
    "tasks_ok (setDeviceValueWithTimeout dps v s)"
    "tasks_ok (setDeviceValueWithTimeout_catch c s)"
    "tasks_ok (handleFanRotationSpeedSet x s)"
  using assms
  by (simp_all add: seg_defs Let_def handleFanRotationSpeedSet_def split: option.splits)

lemma tasks_ok_run_callback: "tasks_ok s \<Longrightarrow> tasks_ok (run_callback cb s)"
  by (cases cb) (simp_all add: run_callback_def tasks_ok_segments debounce_callback_def)

lemma tasks_ok_step: "tasks_ok s \<Longrightarrow> tasks_ok (step e s)"
proof (cases e)
  case (HomeKitGet ch)
  assume "tasks_ok s"
  then show ?thesis
    using HomeKitGet
    by (cases ch)
       (simp_all add: handleFanActiveStateGet_def handleFanRotationSpeedGet_def
          handleFanRotationDirectionGet_def handleLightOnGet_def get_handler_result
          tasks_ok_segments)
qed (auto simp: tasks_ok_segments tasks_ok_run_callback handleFanActiveStateSet_def
      handleFanRotationDirectionSet_def handleLightOnSet_def
      split: option.splits kind.splits)

subsection \<open>The only debounce timer that can be pending is the stored one\<close>
lemma debounce_ok_upd [simp]:
  "debounce_ok (s\<lparr>state := a\<rparr>) = debounce_ok s"
  "debounce_ok (s\<lparr>isGetStatusInProgress := b\<rparr>) = debounce_ok s"
  "debounce_ok (s\<lparr>deviceCalls := dc\<rparr>) = debounce_ok s"
  "debounce_ok (s\<lparr>getDeviceStatusTimer := h\<rparr>) = debounce_ok s"
  "debounce_ok (s\<lparr>dispatched := di, calls := ca\<rparr>) = debounce_ok s"
  "debounce_ok (suspend c p s) = debounce_ok s"
  "debounce_ok (finish c s) = debounce_ok s"
  "debounce_ok (settle c r s) = debounce_ok s"
  "debounce_ok (await_lock k s) = debounce_ok s"
  "debounce_ok (releaseMutex s) = debounce_ok s"
  "debounce_ok (updateCharacteristic ch v s) = debounce_ok s"
  "debounce_ok (updateAccessoryState s) = debounce_ok s"
  "debounce_ok (updateDeviceState st s) = debounce_ok s"
  by (simp_all add: debounce_ok_def)

lemma debounce_ok_setTimeout [simp]:
  "\<not> is_debounce cb \<Longrightarrow> debounce_ok s \<Longrightarrow> debounce_ok (setTimeout cb ms s)"
  by (auto simp: debounce_ok_def)

lemma debounce_ok_clearTimeout [simp]: "debounce_ok s \<Longrightarrow> debounce_ok (clearTimeout h s)"
  by (auto simp: debounce_ok_def)

lemma debounce_ok_handleFanRotationSpeedSet:
  "debounce_ok s \<Longrightarrow> debounce_ok (handleFanRotationSpeedSet x s)"
  by (auto simp: debounce_ok_def handleFanRotationSpeedSet_def Let_def split: option.splits)

lemma debounce_ok_segments:
  assumes "debounce_ok s"
  shows "debounce_ok (getDeviceStatus s)"
    "debounce_ok (getDeviceStatus_locked c s)"
    "debounce_ok (getDeviceStatus_connected c s)"
    "debounce_ok (getDeviceStatus_read c status s)"
    "debounce_ok (getDeviceStatus_catch c s)"
    "debounce_ok (setDeviceValue_locked c s)"
    "debounce_ok (setDeviceValue_connected c dps v s)"
    "debounce_ok (setDeviceValue_finally c s)"
    "debounce_ok (setDeviceValue_catch c s)"
    "debounce_ok (setDeviceValueWithTimeout dps v s)"
    "debounce_ok (setDeviceValueWithTimeout_catch c s)"
  using assms
  by (simp_all add: seg_defs Let_def)

lemma debounce_ok_run_callback: "debounce_ok s \<Longrightarrow> debounce_ok (run_callback cb s)"
  by (cases cb) (simp_all add: run_callback_def debounce_ok_segments debounce_callback_def)

lemma debounce_ok_step: "debounce_ok s \<Longrightarrow> debounce_ok (step e s)"
proof (cases e)
  case (HomeKitGet ch)
  assume "debounce_ok s"
  then show ?thesis
    using HomeKitGet
    by (cases ch)
       (simp_all add: handleFanActiveStateGet_def handleFanRotationSpeedGet_def
          handleFanRotationDirectionGet_def handleLightOnGet_def get_handler_result
          debounce_ok_segments)
qed (auto simp: debounce_ok_segments debounce_ok_run_callback handleFanActiveStateSet_def
      handleFanRotationDirectionSet_def handleLightOnSet_def
      debounce_ok_handleFanRotationSpeedSet
      split: option.splits kind.splits)


subsection \<open>The flag \<^verbatim>\<open>isGetStatusInProgress\<close> counts the polls in flight\<close>


lemma polls_in_flight_frame [simp]:
  "polls_in_flight (s\<lparr>state := a\<rparr>) = polls_in_flight s"
  "polls_in_flight (s\<lparr>isGetStatusInProgress := b\<rparr>) = polls_in_flight s"
  "polls_in_flight (s\<lparr>deviceCalls := dc\<rparr>) = polls_in_flight s"
  "polls_in_flight (s\<lparr>getDeviceStatusTimer := h\<rparr>) = polls_in_flight s"
  "polls_in_flight (s\<lparr>fanSetSpeedDebounceTimer := d\<rparr>) = polls_in_flight s"
  "polls_in_flight (s\<lparr>dispatched := di, calls := ca\<rparr>) = polls_in_flight s"
  "polls_in_flight (s\<lparr>mutex := m\<rparr>) = polls_in_flight s"
  "polls_in_flight (setTimeout cb ms s) = polls_in_flight s"
  "polls_in_flight (clearTimeout h s) = polls_in_flight s"
  "polls_in_flight (settle c r s) = polls_in_flight s"
  "polls_in_flight (updateCharacteristic ch v s) = polls_in_flight s"
  "polls_in_flight (updateAccessoryState s) = polls_in_flight s"
  "polls_in_flight (updateDeviceState st s) = polls_in_flight s"
  by (simp_all add: polls_in_flight_def)

lemma kind_comp_set_pc [simp]:
  "(\<lambda>t. fst (snd t) = k') \<circ> (\<lambda>(d, k, q). if d = c then (d, k, p) else (d, k, q)) =
   (\<lambda>t. fst (snd t) = k')"
  by (rule ext) (auto split: prod.splits)

lemma filter_kind_set_pc:
  "length (filter (\<lambda>t. fst (snd t) = k')
     (map (\<lambda>(d, k, q). if d = c then (d, k, p) else (d, k, q)) ts)) =
   length (filter (\<lambda>t. fst (snd t) = k') ts)"
  by (simp add: filter_map)

lemma polls_in_flight_suspend [simp]: "polls_in_flight (suspend c p s) = polls_in_flight s"
  by (simp add: polls_in_flight_def filter_kind_set_pc)

lemma polls_in_flight_releaseMutex [simp]:
  "polls_in_flight (releaseMutex s) = polls_in_flight s"
  by (simp add: polls_in_flight_def filter_kind_set_pc split: list.splits)

lemma polls_in_flight_await_lock [simp]:
  "polls_in_flight (await_lock k s) = polls_in_flight s + (if k = GetStatus then 1 else 0)"
  by (simp add: polls_in_flight_def)

text \<open>Ending a poll: the task found under \<open>c\<close> is a poll and leaves the list.\<close>

lemma filter_finish_poll:
  "map_of ts c = Some (GetStatus, p) \<Longrightarrow>
   length (filter (\<lambda>t. fst (snd t) = GetStatus) (filter (\<lambda>t. fst t \<noteq> c) ts)) <
   length (filter (\<lambda>t. fst (snd t) = GetStatus) ts)"
proof (induction ts)
  case Nil
  then show ?case by simp
next
  case (Cons t ts)
  have le: "length (filter (\<lambda>t. fst (snd t) = GetStatus) (filter (\<lambda>t. fst t \<noteq> c) ts)) \<le>
            length (filter (\<lambda>t. fst (snd t) = GetStatus) ts)"
    by (induction ts) auto
  show ?case
  proof (cases "fst t = c")
    case True
    with Cons.prems have "snd t = (GetStatus, p)" by (cases t) auto
    with True le show ?thesis by (simp add: le_imp_less_Suc)
  next
    case False
    with Cons.prems have "map_of ts c = Some (GetStatus, p)" by (cases t) auto
    with Cons.IH False show ?thesis by simp
  qed
qed

lemma polls_in_flight_finish_poll:
  assumes "task_of c s = Some (GetStatus, p)" "polls_in_flight s \<le> 1"
  shows "polls_in_flight (finish c s) = 0"
proof -
  have "map_of (tasks s) c = Some (GetStatus, p)"
    using assms(1) by (simp add: task_of_def)
  then have "length (filter (\<lambda>t. fst (snd t) = GetStatus) (filter (\<lambda>t. fst t \<noteq> c) (tasks s))) <
             length (filter (\<lambda>t. fst (snd t) = GetStatus) (tasks s))"
    by (rule filter_finish_poll)
  moreover have "length (filter (\<lambda>t. fst (snd t) = GetStatus) (tasks s)) \<le> 1"
    using assms(2) by (simp add: polls_in_flight_def)
  ultimately have "length (filter (\<lambda>t. fst (snd t) = GetStatus)
                     (filter (\<lambda>t. fst t \<noteq> c) (tasks s))) = 0"
    by linarith
  then show ?thesis
    unfolding polls_in_flight_def finish_sel .
qed

text \<open>Ending a dispatch: with distinct identities no poll leaves the list.\<close>

lemma filter_finish_other:
  "distinct (map fst ts) \<Longrightarrow> map_of ts c = Some (SetValue dps v, p) \<Longrightarrow>
   filter (\<lambda>t. fst (snd t) = GetStatus) (filter (\<lambda>t. fst t \<noteq> c) ts) =
   filter (\<lambda>t. fst (snd t) = GetStatus) ts"
proof (induction ts)
  case Nil
  then show ?case by simp
next
  case (Cons t ts)
  show ?case
  proof (cases "fst t = c")
    case True
    with Cons.prems have k: "snd t = (SetValue dps v, p)" by (cases t) auto
    from True Cons.prems have "c \<notin> fst ` set ts" by auto
    then have "filter (\<lambda>t. fst t \<noteq> c) ts = ts"
      by (induction ts) auto
    with True k show ?thesis by simp
  next
    case False
    with Cons.prems have "map_of ts c = Some (SetValue dps v, p)" by (cases t) auto
    with Cons.IH Cons.prems False show ?thesis by simp
  qed
qed

lemma polls_in_flight_finish_other:
  assumes "tasks_ok s" "task_of c s = Some (SetValue dps v, p)"
  shows "polls_in_flight (finish c s) = polls_in_flight s"
proof -
  have "filter (\<lambda>t. fst (snd t) = GetStatus) (filter (\<lambda>t. fst t \<noteq> c) (tasks s)) =
        filter (\<lambda>t. fst (snd t) = GetStatus) (tasks s)"
    using assms by (intro filter_finish_other) (simp_all add: task_of_def tasks_ok_def)
  then show ?thesis
    unfolding polls_in_flight_def finish_sel by (rule arg_cong)
qed

lemma task_of_releaseMutex_kind:
  "task_of c s = Some (k, p) \<Longrightarrow> \<exists>q. task_of c (releaseMutex s) = Some (k, q)"
  using task_of_releaseMutex [of c s] by (cases "task_of c (releaseMutex s)") auto

lemma suspended_at_task_of: "suspended_at c p s = Some k \<longleftrightarrow> task_of c s = Some (k, p)"
  by (auto simp: suspended_at_def split: option.splits)

lemma flight_ok_getDeviceStatus: "flight_ok s \<Longrightarrow> flight_ok (getDeviceStatus s)"
  by (simp add: flight_ok_def seg_defs Let_def)

lemma flight_ok_poll_steps:
  assumes "flight_ok s"
  shows "flight_ok (getDeviceStatus_locked c s)" "flight_ok (getDeviceStatus_connected c s)"
    "flight_ok (setDeviceValue_locked c s)" "flight_ok (setDeviceValue_connected c dps v s)"
    "flight_ok (setDeviceValueWithTimeout dps v s)"
    "flight_ok (setDeviceValueWithTimeout_catch c s)"
    "flight_ok (handleFanRotationSpeedSet x s)"
  using assms
  by (simp_all add: flight_ok_def seg_defs Let_def handleFanRotationSpeedSet_def
      split: option.splits)

lemma flight_ok_finally:
  assumes "flight_ok s" "task_of c s = Some (GetStatus, p)"
  shows "polls_in_flight (getDeviceStatus_finally c s) = 0"
    "\<not> isGetStatusInProgress (getDeviceStatus_finally c s)"
proof -
  let ?s1 = "releaseMutex (s\<lparr>isGetStatusInProgress := False\<rparr>)"
  from assms(2) have "task_of c (s\<lparr>isGetStatusInProgress := False\<rparr>) = Some (GetStatus, p)"
    by simp
  then obtain q where q: "task_of c ?s1 = Some (GetStatus, q)"
    using task_of_releaseMutex_kind by blast
  have "polls_in_flight ?s1 \<le> 1"
    using assms(1) by (simp add: flight_ok_def split: if_splits)
  with q show "polls_in_flight (getDeviceStatus_finally c s) = 0"
    unfolding getDeviceStatus_finally_def by (rule polls_in_flight_finish_poll)
  show "\<not> isGetStatusInProgress (getDeviceStatus_finally c s)"
    by (simp add: getDeviceStatus_finally_def)
qed

lemma flight_ok_end_poll:
  assumes "flight_ok s" "task_of c s = Some (GetStatus, p)"
  shows "flight_ok (getDeviceStatus_read c status s)" "flight_ok (getDeviceStatus_catch c s)"
proof -
  let ?a = "updateAccessoryState
     ((updateDeviceState status s)\<lparr>state := (state (updateDeviceState status s))\<lparr>isValid := True\<rparr>\<rparr>)"
  have "flight_ok ?a" "task_of c ?a = Some (GetStatus, p)"
    using assms by (simp_all add: flight_ok_def)
  then show "flight_ok (getDeviceStatus_read c status s)"
    using flight_ok_finally [of ?a c p]
    by (simp add: flight_ok_def getDeviceStatus_read_def scheduleNextPoll_def Let_def)
  let ?b = "s\<lparr>deviceCalls := deviceCalls s @ [DevDisconnect],
     state := (state s)\<lparr>isValid := False\<rparr>\<rparr>"
  have "flight_ok ?b" "task_of c ?b = Some (GetStatus, p)"
    using assms by (simp_all add: flight_ok_def task_of_def polls_in_flight_def)
  then show "flight_ok (getDeviceStatus_catch c s)"
    using flight_ok_finally [of ?b c p]
    by (simp add: flight_ok_def getDeviceStatus_catch_def scheduleNextPoll_def Let_def)
qed

lemma flight_ok_end_dispatch:
  assumes "flight_ok s" "tasks_ok s" "task_of c s = Some (SetValue dps v, p)"
  shows "flight_ok (setDeviceValue_finally c s)" "flight_ok (setDeviceValue_catch c s)"
proof -
  have fin: "flight_ok (setDeviceValue_finally c s')"
    if f: "flight_ok s'" and t: "tasks_ok s'" and k: "task_of c s' = Some (SetValue dps v, p)"
    for s'
  proof -
    obtain q where q: "task_of c (releaseMutex s') = Some (SetValue dps v, q)"
      using k task_of_releaseMutex_kind by blast
    have "tasks_ok (releaseMutex s')" using t by simp
    then have "polls_in_flight (finish c (releaseMutex s')) = polls_in_flight s'"
      using q polls_in_flight_finish_other by simp
    then show ?thesis
      using f by (simp add: flight_ok_def setDeviceValue_finally_def)
  qed
  show "flight_ok (setDeviceValue_finally c s)" using assms by (rule fin)
  have "flight_ok (s\<lparr>deviceCalls := deviceCalls s @ [DevDisconnect]\<rparr>)"
    "tasks_ok (s\<lparr>deviceCalls := deviceCalls s @ [DevDisconnect]\<rparr>)"
    "task_of c (s\<lparr>deviceCalls := deviceCalls s @ [DevDisconnect]\<rparr>) = Some (SetValue dps v, p)"
    using assms by (simp_all add: flight_ok_def)
  then show "flight_ok (setDeviceValue_catch c s)"
    unfolding setDeviceValue_catch_def by (rule fin)
qed

lemma flight_ok_clearTimeout [simp]: "flight_ok (clearTimeout h s) = flight_ok s"
  by (simp add: flight_ok_def)

lemma flight_ok_run_callback:
  "flight_ok s \<Longrightarrow> flight_ok (run_callback cb s)"
  by (cases cb)
     (auto simp: run_callback_def flight_ok_getDeviceStatus flight_ok_poll_steps
        debounce_callback_def suspended_at_task_of flight_ok_end_poll)

lemma flight_ok_step: "flight_ok s \<Longrightarrow> tasks_ok s \<Longrightarrow> flight_ok (step e s)"
proof (cases e)
  case (HomeKitGet ch)
  assume "flight_ok s"
  then show ?thesis
    using HomeKitGet
    by (cases ch)
       (simp_all add: handleFanActiveStateGet_def handleFanRotationSpeedGet_def
          handleFanRotationDirectionGet_def handleLightOnGet_def get_handler_result
          flight_ok_getDeviceStatus)
next
  case (TimerFires h)
  assume "flight_ok s"
  then show ?thesis
    using TimerFires by (auto simp: flight_ok_run_callback split: option.splits)
qed (auto simp: flight_ok_poll_steps handleFanActiveStateSet_def
      handleFanRotationDirectionSet_def handleLightOnSet_def suspended_at_task_of
      flight_ok_end_poll flight_ok_end_dispatch
      split: option.splits kind.splits)




section \<open>Reachable states\<close>

lemma invariants_init:
  "timers_ok (CreateCeilingFanAccessory light)" "tasks_ok (CreateCeilingFanAccessory light)"
  "debounce_ok (CreateCeilingFanAccessory light)" "flight_ok (CreateCeilingFanAccessory light)"
  by (simp_all add: timers_ok_def tasks_ok_def debounce_ok_def flight_ok_def
      polls_in_flight_def CreateCeilingFanAccessory_def)

lemma invariants_run:
  "timers_ok s \<and> tasks_ok s \<and> debounce_ok s \<and> flight_ok s \<Longrightarrow>
   timers_ok (run es s) \<and> tasks_ok (run es s) \<and> debounce_ok (run es s) \<and> flight_ok (run es s)"
proof (induction es arbitrary: s)
  case Nil
  then show ?case by simp
next
  case (Cons e es)
  then have "timers_ok (step e s) \<and> tasks_ok (step e s) \<and> debounce_ok (step e s) \<and>
             flight_ok (step e s)"
    by (simp add: timers_ok_step tasks_ok_step debounce_ok_step flight_ok_step del: step.simps)
  then show ?case using Cons.IH by (simp del: step.simps)
qed

lemma invariants_reachable:
  "timers_ok (run es (CreateCeilingFanAccessory light))"
  "tasks_ok (run es (CreateCeilingFanAccessory light))"
  "debounce_ok (run es (CreateCeilingFanAccessory light))"
  "flight_ok (run es (CreateCeilingFanAccessory light))"
  using invariants_run [of "CreateCeilingFanAccessory light" es] invariants_init [of light]
  by simp_all

lemma getDeviceStatus_in_progress:
  assumes "isGetStatusInProgress s"
  shows "tasks (getDeviceStatus s) = tasks s" "deviceCalls (getDeviceStatus s) = deviceCalls s"
    "mutex (getDeviceStatus s) = mutex s" "next_poll (getDeviceStatus s) 10000"
  using assms
  by (simp_all add: seg_defs Let_def next_poll_def getDeviceStatusPeriod_def)

lemma flight_ok_bound: "flight_ok s \<Longrightarrow> polls_in_flight s \<le> 1"
  by (cases "isGetStatusInProgress s") (simp_all add: flight_ok_def)

lemma flight_ok_flag: "flight_ok s \<Longrightarrow> polls_in_flight s = 1 \<Longrightarrow> isGetStatusInProgress s"
  by (cases "isGetStatusInProgress s") (simp_all add: flight_ok_def)

text \<open>
  Claim C4. In every state the accessory can reach from its constructor, at most one
  \<^verbatim>\<open>getDeviceStatus\<close> activation is between its start and its end. When one is, a
  further call of \<^verbatim>\<open>getDeviceStatus\<close> starts no task, makes no call on the device,
  leaves the mutex and the cache alone and only schedules the next poll; and when the
  read of the running activation is fulfilled, the cache holds what was read and is
  valid, which is the cache every later getter sees.
\<close>

theorem single_flight_polling:
  "(let s = run es (CreateCeilingFanAccessory light)
    in polls_in_flight s \<le> 1 \<and>
       (polls_in_flight s = 1 \<longrightarrow>
          tasks (getDeviceStatus s) = tasks s \<and>
          deviceCalls (getDeviceStatus s) = deviceCalls s \<and>
          mutex (getDeviceStatus s) = mutex s \<and>
          state (getDeviceStatus s) = state s \<and>
          next_poll (getDeviceStatus s) 10000) \<and>
       (suspended_at c AwaitRead s = Some GetStatus \<longrightarrow>
          state (step (ReadSettles c (Some status)) s) =
            \<lparr>fanOn = dps60 status, fanSpeed = dps62 status,
             fanRotationClockwise = (dps63 status \<noteq> ''forward''), lightOn = dps20 status,
             isValid = True\<rparr>))"
proof -
  let ?s = "run es (CreateCeilingFanAccessory light)"
  have f: "flight_ok ?s" by (rule invariants_reachable)
  then have "polls_in_flight ?s \<le> 1"
    by (rule flight_ok_bound)
  moreover have "isGetStatusInProgress ?s" if "polls_in_flight ?s = 1"
    using f that by (rule flight_ok_flag)
  moreover have "state (step (ReadSettles c (Some status)) ?s) =
            \<lparr>fanOn = dps60 status, fanSpeed = dps62 status,
             fanRotationClockwise = (dps63 status \<noteq> ''forward''), lightOn = dps20 status,
             isValid = True\<rparr>" if "suspended_at c AwaitRead ?s = Some GetStatus"
    using that by (simp add: state_getDeviceStatus_read)
  ultimately show ?thesis
    by (simp add: Let_def getDeviceStatus_in_progress del: step.simps)
qed

text \<open>
  A poll is waiting for \<^verbatim>\<open>get()\<close> when HomeKit asks for the active state: still one
  poll in flight, and no further call on the device.
\<close>

theorem single_flight_polling_witness:
  "polls_in_flight poll_reading = 1 \<and>
   suspended_at 0 AwaitRead poll_reading = Some GetStatus \<and>
   tasks (getDeviceStatus poll_reading) = tasks poll_reading \<and>
   deviceCalls (getDeviceStatus poll_reading) = [DevConnect, DevGet] \<and>
   polls_in_flight (step (HomeKitGet Active) poll_reading) = 1 \<and>
   state (step (ReadSettles 0 (Some example_status)) poll_reading) =
     \<lparr>fanOn = True, fanSpeed = 3, fanRotationClockwise = True, lightOn = True,
      isValid = True\<rparr>"
proof -
  have a: "polls_in_flight poll_reading = 1" by (simp add: eval_defs)
  have b: "suspended_at 0 AwaitRead poll_reading = Some GetStatus" by (simp add: eval_defs)
  have c: "deviceCalls poll_reading = [DevConnect, DevGet]" by (simp add: eval_defs)
  have d: "polls_in_flight (step (HomeKitGet Active) poll_reading) = 1" by (simp add: eval_defs)
  have e: "dps60 example_status" "dps62 example_status = 3" "dps20 example_status"
    "dps63 example_status = ''reverse''"
    by (simp_all add: example_status_def)
  show ?thesis
    using a b c d e
      single_flight_polling [of "[TimerFires 0, Resume 0, ConnectSettles 0 True]" True 0
        example_status]
    by (simp add: Let_def poll_reading_def [symmetric] del: step.simps run.simps)
qed

section \<open>The device communicator object\<close>

lemma deviceCommunicator_segments [simp]:
  "deviceCommunicator (getDeviceStatus s) = deviceCommunicator s"
  "deviceCommunicator (getDeviceStatus_locked c s) = deviceCommunicator s"
  "deviceCommunicator (getDeviceStatus_connected c s) = deviceCommunicator s"
  "deviceCommunicator (getDeviceStatus_read c status s) = deviceCommunicator s"
  "deviceCommunicator (getDeviceStatus_catch c s) = deviceCommunicator s"
  "deviceCommunicator (setDeviceValue_locked c s) = deviceCommunicator s"
  "deviceCommunicator (setDeviceValue_connected c dps v s) = deviceCommunicator s"
  "deviceCommunicator (setDeviceValue_finally c s) = deviceCommunicator s"
  "deviceCommunicator (setDeviceValue_catch c s) = deviceCommunicator s"
  "deviceCommunicator (setDeviceValueWithTimeout dps v s) = deviceCommunicator s"
  "deviceCommunicator (setDeviceValueWithTimeout_catch c s) = deviceCommunicator s"
  "deviceCommunicator (handleFanRotationSpeedSet x s) = deviceCommunicator s"
  by (simp_all add: seg_defs Let_def handleFanRotationSpeedSet_def split: option.splits)

lemma deviceCommunicator_run_callback:
  "deviceCommunicator (run_callback cb s) = deviceCommunicator s"
  by (cases cb) (simp_all add: run_callback_def debounce_callback_def)

lemma deviceCommunicator_step: "deviceCommunicator (step e s) = deviceCommunicator s"
proof (cases e)
  case (HomeKitGet ch)
  then show ?thesis
    by (cases ch)
       (simp_all add: handleFanActiveStateGet_def handleFanRotationSpeedGet_def
          handleFanRotationDirectionGet_def handleLightOnGet_def get_handler_result)
qed (auto simp: deviceCommunicator_run_callback handleFanActiveStateSet_def
      handleFanRotationDirectionSet_def handleLightOnSet_def
      split: option.splits kind.splits)

lemma deviceCommunicator_run: "deviceCommunicator (run es s) = deviceCommunicator s"
  by (induction es arbitrary: s) (simp_all add: deviceCommunicator_step del: step.simps)




lemma map_of_append_fresh:
  "x \<notin> fst ` set xs \<Longrightarrow> map_of (xs @ [(x, y)]) x = Some y"
  by (induction xs) auto

lemma pending_timer_setTimeout_fresh:
  assumes "timers_ok s"
  shows "pending_timer (nextTimer s) (setTimeout cb ms s) = Some (cb, ms)"
proof -
  have "nextTimer s \<notin> fst ` set (timers s)"
    using assms by (auto simp: timers_ok_def)
  then have "map_of (timers s @ [(nextTimer s, cb, ms)]) (nextTimer s) = Some (cb, ms)"
    by (rule map_of_append_fresh)
  then show ?thesis
    by (simp only: pending_timer_def setTimeout_sel)
qed

lemma pending_timer_scheduleNextPoll:
  "timers_ok s \<Longrightarrow>
   pending_timer (getDeviceStatusTimer (scheduleNextPoll b s)) (scheduleNextPoll b s) =
     Some (PollTick, if b then getDeviceStatusFastRetryPeriod else getDeviceStatusPeriod)"
  using pending_timer_setTimeout_fresh [of s PollTick]
  by (simp add: scheduleNextPoll_def Let_def pending_timer_def)

lemma task_of_await_lock_fresh:
  assumes "tasks_ok s"
  shows "task_of (nextTask s) (await_lock k s) =
     Some (k, if isLocked (mutex s) then AwaitLock else LockGranted)"
proof -
  have "nextTask s \<notin> fst ` set (tasks s)"
    using assms by (auto simp: tasks_ok_def)
  then have "map_of (tasks s @ [(nextTask s, k, if isLocked (mutex s) then AwaitLock else LockGranted)])
               (nextTask s) = Some (k, if isLocked (mutex s) then AwaitLock else LockGranted)"
    by (rule map_of_append_fresh)
  then show ?thesis
    by (simp only: task_of_def await_lock_sel)
qed

text \<open>The three steps of a failing poll, from an idle accessory.\<close>

lemma failed_poll_start:
  assumes "idle s"
  shows "step (TimerFires (getDeviceStatusTimer s)) s =
         await_lock GetStatus
           ((clearTimeout (getDeviceStatusTimer s) (clearTimeout (getDeviceStatusTimer s) s))
              \<lparr>isGetStatusInProgress := True\<rparr>)"
  using assms
  by (auto simp: idle_def run_callback_def getDeviceStatus_def Let_def)

lemma failed_poll_unfold:
  assumes "idle s"
  shows "failed_poll s =
         getDeviceStatus_catch (nextTask s)
           (getDeviceStatus_locked (nextTask s)
              (step (TimerFires (getDeviceStatusTimer s)) s))"
proof -
  let ?c = "nextTask s"
  let ?s0 = "(clearTimeout (getDeviceStatusTimer s) (clearTimeout (getDeviceStatusTimer s) s))
              \<lparr>isGetStatusInProgress := True\<rparr>"
  let ?s1 = "step (TimerFires (getDeviceStatusTimer s)) s"
  have s1: "?s1 = await_lock GetStatus ?s0"
    using assms by (rule failed_poll_start)
  have ok0: "tasks_ok ?s0" "nextTask ?s0 = ?c" "\<not> isLocked (mutex ?s0)"
    using assms by (simp_all add: idle_def Mutex_new_def)
  have t1: "task_of ?c ?s1 = Some (GetStatus, LockGranted)"
    using task_of_await_lock_fresh [OF ok0(1), of GetStatus] ok0(2,3) s1 by simp
  then have r: "step (Resume ?c) ?s1 = getDeviceStatus_locked ?c ?s1"
    by (simp add: suspended_at_def)
  have "task_of ?c (getDeviceStatus_locked ?c ?s1) = Some (GetStatus, AwaitConnect)"
    using t1 by (simp add: getDeviceStatus_locked_def task_of_suspend)
  then have "step (ConnectSettles ?c False) (getDeviceStatus_locked ?c ?s1) =
             getDeviceStatus_catch ?c (getDeviceStatus_locked ?c ?s1)"
    by (simp add: suspended_at_def)
  with r show ?thesis
    by (simp add: failed_poll_def del: step.simps)
qed

lemma failed_poll_idle:
  assumes "idle s"
  shows "idle (failed_poll s)"
    "deviceCalls (failed_poll s) = deviceCalls s @ [DevConnect, DevDisconnect]"
    "\<not> isValid (state (failed_poll s))"
    "next_poll (failed_poll s) 1000"
proof -
  let ?c = "nextTask s"
  let ?s1 = "step (TimerFires (getDeviceStatusTimer s)) s"
  let ?s2 = "getDeviceStatus_locked ?c ?s1"
  have u: "failed_poll s = getDeviceStatus_catch ?c ?s2"
    using assms by (rule failed_poll_unfold)
  have s1: "?s1 = await_lock GetStatus
           ((clearTimeout (getDeviceStatusTimer s) (clearTimeout (getDeviceStatusTimer s) s))
              \<lparr>isGetStatusInProgress := True\<rparr>)"
    using assms by (rule failed_poll_start)
  have ok: "timers_ok s" "tasks_ok s" using assms by (simp_all add: idle_def)
  have ok1: "timers_ok ?s1" "tasks_ok ?s1"
    using ok by (simp_all add: timers_ok_step tasks_ok_step del: step.simps)
  have ok2: "timers_ok ?s2" "tasks_ok ?s2"
    using ok1 by (simp_all add: timers_ok_segments tasks_ok_segments)
  have ok3: "timers_ok (failed_poll s)" "tasks_ok (failed_poll s)"
    using ok2 u by (simp_all add: timers_ok_segments tasks_ok_segments)
  have m1: "mutex ?s1 = \<lparr>isLocked = True, waitingQueue = []\<rparr>"
    using assms s1 by (simp add: idle_def Mutex_new_def lock_def)
  then have m2: "mutex ?s2 = \<lparr>isLocked = True, waitingQueue = []\<rparr>"
    by (simp add: getDeviceStatus_locked_def)
  have m3: "mutex (failed_poll s) = Mutex_new"
    using m2 u by (simp add: mutex_getDeviceStatus_catch unlock_def Mutex_new_def)
  have f3: "\<not> isGetStatusInProgress (failed_poll s)"
    using u by (simp add: getDeviceStatus_catch_def getDeviceStatus_finally_def
        scheduleNextPoll_def Let_def)
  let ?s3 = "getDeviceStatus_finally ?c
     (?s2\<lparr>deviceCalls := deviceCalls ?s2 @ [DevDisconnect],
        state := (state ?s2)\<lparr>isValid := False\<rparr>\<rparr>)"
  have u3: "failed_poll s = scheduleNextPoll True ?s3"
    using u by (simp add: getDeviceStatus_catch_def Let_def)
  have "timers_ok ?s3"
    using ok2 by (simp add: getDeviceStatus_finally_def)
  then have p3: "map_option fst (pending_timer (getDeviceStatusTimer (failed_poll s))
      (failed_poll s)) = Some PollTick"
    using pending_timer_scheduleNextPoll [of ?s3 True] u3 by simp
  show "idle (failed_poll s)"
    using ok3 m3 f3 p3 by (simp add: idle_def)
  have "deviceCalls ?s1 = deviceCalls s"
    using s1 by simp
  then show "deviceCalls (failed_poll s) = deviceCalls s @ [DevConnect, DevDisconnect]"
    using u by (simp add: getDeviceStatus_catch_def getDeviceStatus_finally_def
        scheduleNextPoll_def getDeviceStatus_locked_def Let_def)
  show "\<not> isValid (state (failed_poll s))"
    using u by (simp add: state_getDeviceStatus_catch)
  show "next_poll (failed_poll s) 1000"
    using u by (simp add: next_poll_catch)
qed

lemma idle_init: "idle (CreateCeilingFanAccessory light)"
  using invariants_init [of light]
  by (simp add: idle_def) (simp add: CreateCeilingFanAccessory_def pending_timer_def)

lemma failed_polls_idle: "idle ((failed_poll ^^ n) (CreateCeilingFanAccessory light))"
  by (induction n) (simp_all add: idle_init failed_poll_idle)

lemma failed_polls_log:
  "deviceCalls ((failed_poll ^^ n) (CreateCeilingFanAccessory light)) =
     concat (replicate n [DevConnect, DevDisconnect])"
proof (induction n)
  case 0
  show ?case by (simp add: CreateCeilingFanAccessory_def)
next
  case (Suc n)
  have "concat (replicate n [DevConnect, DevDisconnect]) @ [DevConnect, DevDisconnect] =
        concat (replicate (Suc n) [DevConnect, DevDisconnect])"
    by (induction n) simp_all
  with Suc show ?case
    using failed_poll_idle(2) [OF failed_polls_idle [of n light]] by simp
qed

lemma deviceCommunicator_failed_polls:
  "deviceCommunicator ((failed_poll ^^ n) s) = deviceCommunicator s"
  by (induction n) (simp_all add: failed_poll_def deviceCommunicator_run del: run.simps)

text \<open>
  Claim C3, as the code has it. The field \<^verbatim>\<open>deviceCommunicator\<close> refers to the object
  the constructor created in every state the accessory can reach; in particular after
  any number \<open>n\<close> of consecutive failed polls, in which the only calls on the device are
  \<open>n\<close> times \<^verbatim>\<open>connect()\<close> and the \<^verbatim>\<open>disconnect()\<close> of the failed attempt.
\<close>

theorem connection_object_kept:
  "deviceCommunicator (run es (CreateCeilingFanAccessory light)) =
     deviceCommunicator (CreateCeilingFanAccessory light) \<and>
   deviceCalls ((failed_poll ^^ n) (CreateCeilingFanAccessory light)) =
     concat (replicate n [DevConnect, DevDisconnect]) \<and>
   deviceCommunicator ((failed_poll ^^ n) (CreateCeilingFanAccessory light)) =
     deviceCommunicator (CreateCeilingFanAccessory light)"
  by (simp add: deviceCommunicator_run failed_polls_log deviceCommunicator_failed_polls)

theorem connection_object_kept_witness:
  "deviceCommunicator (run [TimerFires 0, Resume 0, ConnectSettles 0 False]
     (CreateCeilingFanAccessory True)) = 0 \<and>
   deviceCalls ((failed_poll ^^ Suc (Suc 0)) (CreateCeilingFanAccessory True)) =
     [DevConnect, DevDisconnect, DevConnect, DevDisconnect]"
  using connection_object_kept [of "[TimerFires 0, Resume 0, ConnectSettles 0 False]" True
      "Suc (Suc 0)"]
  by (simp add: CreateCeilingFanAccessory_def del: run.simps)

text \<open>
  The claim as the specification states it fails: there is no number of consecutive
  failed polls after which the field refers to another object.
\<close>

theorem connection_rebuild_counterexample:
  "\<not> (\<exists>n. deviceCommunicator ((failed_poll ^^ n) (CreateCeilingFanAccessory True)) \<noteq>
            deviceCommunicator (CreateCeilingFanAccessory True))"
  by (simp add: deviceCommunicator_failed_polls)


section \<open>The debounce controller\<close>


lemma debounce_pending_frame [simp]:
  "debounce_pending (s\<lparr>state := a\<rparr>) = debounce_pending s"
  "debounce_pending (s\<lparr>isGetStatusInProgress := b\<rparr>) = debounce_pending s"
  "debounce_pending (s\<lparr>deviceCalls := dc\<rparr>) = debounce_pending s"
  "debounce_pending (s\<lparr>getDeviceStatusTimer := h\<rparr>) = debounce_pending s"
  "debounce_pending (s\<lparr>fanSetSpeedDebounceTimer := d\<rparr>) = debounce_pending s"
  "debounce_pending (s\<lparr>dispatched := di, calls := ca\<rparr>) = debounce_pending s"
  "debounce_pending (suspend c p s) = debounce_pending s"
  "debounce_pending (finish c s) = debounce_pending s"
  "debounce_pending (settle c r s) = debounce_pending s"
  "debounce_pending (await_lock k s) = debounce_pending s"
  "debounce_pending (releaseMutex s) = debounce_pending s"
  "debounce_pending (updateCharacteristic ch v s) = debounce_pending s"
  "debounce_pending (updateAccessoryState s) = debounce_pending s"
  "debounce_pending (updateDeviceState st s) = debounce_pending s"
  by (simp_all add: debounce_pending_def)

lemma debounce_pending_setTimeout [simp]:
  "debounce_pending (setTimeout cb ms s) =
     debounce_pending s @ (if is_debounce cb then [(nextTimer s, cb, ms)] else [])"
  by (simp add: debounce_pending_def)

lemma debounce_pending_clearTimeout_empty [simp]:
  "debounce_pending s = [] \<Longrightarrow> debounce_pending (clearTimeout h s) = []"
  by (auto simp: debounce_pending_def filter_empty_conv)

lemma speed_commands_frame [simp]:
  "speed_commands (s\<lparr>state := a\<rparr>) = speed_commands s"
  "speed_commands (s\<lparr>isGetStatusInProgress := b\<rparr>) = speed_commands s"
  "speed_commands (s\<lparr>deviceCalls := dc\<rparr>) = speed_commands s"
  "speed_commands (s\<lparr>getDeviceStatusTimer := h\<rparr>) = speed_commands s"
  "speed_commands (s\<lparr>fanSetSpeedDebounceTimer := d\<rparr>) = speed_commands s"
  "speed_commands (setTimeout cb ms s) = speed_commands s"
  "speed_commands (clearTimeout h s) = speed_commands s"
  "speed_commands (suspend c p s) = speed_commands s"
  "speed_commands (finish c s) = speed_commands s"
  "speed_commands (settle c r s) = speed_commands s"
  "speed_commands (await_lock k s) = speed_commands s"
  "speed_commands (releaseMutex s) = speed_commands s"
  "speed_commands (updateCharacteristic ch v s) = speed_commands s"
  "speed_commands (updateAccessoryState s) = speed_commands s"
  "speed_commands (updateDeviceState st s) = speed_commands s"
  by (simp_all add: speed_commands_def)

lemma speed_commands_setDeviceValueWithTimeout:
  "speed_commands (setDeviceValueWithTimeout dps v s) =
     speed_commands s @ (if dps = 62 then [(dps, v)] else [])"
  by (simp add: setDeviceValueWithTimeout_def setDeviceValue_def Let_def)
     (simp add: speed_commands_def)

lemma debounce_pending_setDeviceValueWithTimeout:
  "debounce_pending (setDeviceValueWithTimeout dps v s) = debounce_pending s"
  by (simp add: setDeviceValueWithTimeout_def setDeviceValue_def Let_def)

lemma quiet_segments:
  assumes "debounce_pending s = []"
  shows "debounce_pending (getDeviceStatus s) = [] \<and>
           speed_commands (getDeviceStatus s) = speed_commands s"
    "debounce_pending (getDeviceStatus_locked c s) = [] \<and>
       speed_commands (getDeviceStatus_locked c s) = speed_commands s"
    "debounce_pending (getDeviceStatus_connected c s) = [] \<and>
       speed_commands (getDeviceStatus_connected c s) = speed_commands s"
    "debounce_pending (getDeviceStatus_read c status s) = [] \<and>
       speed_commands (getDeviceStatus_read c status s) = speed_commands s"
    "debounce_pending (getDeviceStatus_catch c s) = [] \<and>
       speed_commands (getDeviceStatus_catch c s) = speed_commands s"
    "debounce_pending (setDeviceValue_locked c s) = [] \<and>
       speed_commands (setDeviceValue_locked c s) = speed_commands s"
    "debounce_pending (setDeviceValue_connected c dps v s) = [] \<and>
       speed_commands (setDeviceValue_connected c dps v s) = speed_commands s"
    "debounce_pending (setDeviceValue_finally c s) = [] \<and>
       speed_commands (setDeviceValue_finally c s) = speed_commands s"
    "debounce_pending (setDeviceValue_catch c s) = [] \<and>
       speed_commands (setDeviceValue_catch c s) = speed_commands s"
    "debounce_pending (setDeviceValueWithTimeout_catch c s) = [] \<and>
       speed_commands (setDeviceValueWithTimeout_catch c s) = speed_commands s"
  using assms
  by (simp_all add: getDeviceStatus_def getDeviceStatus_locked_def
      getDeviceStatus_connected_def getDeviceStatus_finally_def getDeviceStatus_read_def
      getDeviceStatus_catch_def scheduleNextPoll_def setDeviceValue_locked_def
      setDeviceValue_connected_def setDeviceValue_finally_def setDeviceValue_catch_def
      setDeviceValueWithTimeout_catch_def Let_def)

lemma pending_timer_mem:
  "pending_timer h s = Some (cb, ms) \<Longrightarrow> (h, cb, ms) \<in> set (timers s)"
  by (simp add: pending_timer_def map_of_SomeD)

lemma no_debounce_pending:
  assumes "debounce_pending s = []" "pending_timer h s = Some (cb, ms)"
  shows "\<not> is_debounce cb"
proof
  assume "is_debounce cb"
  with pending_timer_mem [OF assms(2)] have "(h, cb, ms) \<in> set (debounce_pending s)"
    by (simp add: debounce_pending_def)
  with assms(1) show False by simp
qed

lemma quiet_run_callback:
  assumes "debounce_pending s = []" "\<not> is_debounce cb"
  shows "debounce_pending (run_callback cb s) = [] \<and>
         speed_commands (run_callback cb s) = speed_commands s"
  using assms by (cases cb) (simp_all add: run_callback_def quiet_segments)

lemma quiet_step:
  assumes "debounce_pending s = []" "\<not> is_slider_input e"
  shows "debounce_pending (step e s) = [] \<and> speed_commands (step e s) = speed_commands s"
proof (cases e)
  case (TimerFires h)
  show ?thesis
  proof (cases "pending_timer h s")
    case None
    with TimerFires assms show ?thesis by simp
  next
    case (Some t)
    obtain cb ms where t: "t = (cb, ms)" by (cases t)
    have "\<not> is_debounce cb" using assms(1) Some t no_debounce_pending by blast
    moreover have "debounce_pending (clearTimeout h s) = []" using assms(1) by simp
    ultimately show ?thesis
      using TimerFires Some t quiet_run_callback [of "clearTimeout h s" cb] by simp
  qed
next
  case (HomeKitGet ch)
  then show ?thesis
    using assms quiet_segments(1) [of s]
    by (cases ch)
       (simp_all add: handleFanActiveStateGet_def handleFanRotationSpeedGet_def
          handleFanRotationDirectionGet_def handleLightOnGet_def get_handler_result)
next
  case (HomeKitSetRotationSpeed v)
  with assms show ?thesis by simp
qed (use assms in \<open>auto simp: quiet_segments handleFanActiveStateSet_def
      handleFanRotationDirectionSet_def handleLightOnSet_def
      speed_commands_setDeviceValueWithTimeout debounce_pending_setDeviceValueWithTimeout
      split: option.splits kind.splits\<close>)

lemma quiet_run:
  "debounce_pending s = [] \<Longrightarrow> slider_at_rest es \<Longrightarrow>
   debounce_pending (run es s) = [] \<and> speed_commands (run es s) = speed_commands s"
proof (induction es arbitrary: s)
  case Nil
  then show ?case by simp
next
  case (Cons e es)
  from Cons.prems have e: "\<not> is_slider_input e" and es: "slider_at_rest es"
    by (simp_all add: slider_at_rest_def)
  from quiet_step [OF Cons.prems(1) e] Cons.IH [of "step e s"] es
  show ?case by (simp del: step.simps)
qed

text \<open>The slider handler.\<close>

lemma dispatched_slider_input: "dispatched (handleFanRotationSpeedSet v s) = dispatched s"
  by (simp add: handleFanRotationSpeedSet_def Let_def split: option.splits)

lemma cleared_debounce:
  assumes "debounce_ok s"
  shows "debounce_pending
           (case fanSetSpeedDebounceTimer s of None \<Rightarrow> s | Some h \<Rightarrow> clearTimeout h s) = []"
  using assms
  by (auto simp: debounce_ok_def debounce_pending_def filter_empty_conv split: option.splits)

lemma slider_input:
  assumes "debounce_ok s"
  shows "debounce_pending (handleFanRotationSpeedSet v s) =
       (if v = 0 then []
        else [(nextTimer s, Debounce (adjustInputRotationSpeed v), fanSetSpeedDebouncePeriod)])"
proof -
  let ?s1 = "case fanSetSpeedDebounceTimer s of None \<Rightarrow> s | Some h \<Rightarrow> clearTimeout h s"
  have n: "nextTimer ?s1 = nextTimer s" "dispatched ?s1 = dispatched s"
    by (simp_all split: option.splits)
  have z: "adjustInputRotationSpeed v = 0 \<longleftrightarrow> v = 0"
    by (simp add: adjustInputRotationSpeed_cases)
  show "debounce_pending (handleFanRotationSpeedSet v s) =
       (if v = 0 then []
        else [(nextTimer s, Debounce (adjustInputRotationSpeed v), fanSetSpeedDebouncePeriod)])"
    using cleared_debounce [OF assms] n z
    by (simp add: handleFanRotationSpeedSet_def Let_def)
qed




lemma debounce_pending_clearTimeout:
  "debounce_pending (clearTimeout h s) = filter (\<lambda>t. fst t \<noteq> h) (debounce_pending s)"
  by (simp add: debounce_pending_def) (metis (mono_tags, lifting) filter_cong)

lemma debounce_fires:
  assumes "timers_ok s" "debounce_pending s = [(h, Debounce a, ms)]"
  shows "debounce_pending (step (TimerFires h) s) = []"
    "dispatched (step (TimerFires h) s) = dispatched s @ [(62, VNum (dpsRotationSpeed a))]"
    "speed_commands (step (TimerFires h) s) =
       speed_commands s @ [(62, VNum (dpsRotationSpeed a))]"
proof -
  have "(h, Debounce a, ms) \<in> set (debounce_pending s)"
    using assms(2) by simp
  then have "(h, Debounce a, ms) \<in> set (timers s)"
    by (simp add: debounce_pending_def)
  moreover have "distinct (map fst (timers s))"
    using assms(1) by (simp add: timers_ok_def)
  ultimately have "pending_timer h s = Some (Debounce a, ms)"
    by (simp add: pending_timer_def)
  then have st: "step (TimerFires h) s =
      setDeviceValueWithTimeout 62 (VNum (dpsRotationSpeed a)) (clearTimeout h s)"
    by (simp add: run_callback_def debounce_callback_def)
  have "debounce_pending (clearTimeout h s) = []"
    using assms(2) by (simp add: debounce_pending_clearTimeout)
  then show "debounce_pending (step (TimerFires h) s) = []"
    using st by (simp add: debounce_pending_setDeviceValueWithTimeout)
  show "dispatched (step (TimerFires h) s) = dispatched s @ [(62, VNum (dpsRotationSpeed a))]"
    using st by (simp add: setDeviceValueWithTimeout_def setDeviceValue_def Let_def)
  show "speed_commands (step (TimerFires h) s) =
       speed_commands s @ [(62, VNum (dpsRotationSpeed a))]"
    using st by (simp add: speed_commands_setDeviceValueWithTimeout)
qed

lemma poll_handle_ok_upd [simp]:
  "poll_handle_ok (s\<lparr>state := a\<rparr>) = poll_handle_ok s"
  "poll_handle_ok (s\<lparr>isGetStatusInProgress := b\<rparr>) = poll_handle_ok s"
  "poll_handle_ok (s\<lparr>deviceCalls := dc\<rparr>) = poll_handle_ok s"
  "poll_handle_ok (s\<lparr>fanSetSpeedDebounceTimer := d\<rparr>) = poll_handle_ok s"
  "poll_handle_ok (s\<lparr>dispatched := di, calls := ca\<rparr>) = poll_handle_ok s"
  "poll_handle_ok (suspend c p s) = poll_handle_ok s"
  "poll_handle_ok (finish c s) = poll_handle_ok s"
  "poll_handle_ok (settle c r s) = poll_handle_ok s"
  "poll_handle_ok (await_lock k s) = poll_handle_ok s"
  "poll_handle_ok (releaseMutex s) = poll_handle_ok s"
  "poll_handle_ok (updateCharacteristic ch v s) = poll_handle_ok s"
  "poll_handle_ok (updateAccessoryState s) = poll_handle_ok s"
  "poll_handle_ok (updateDeviceState st s) = poll_handle_ok s"
  by (simp_all add: poll_handle_ok_def)

lemma poll_handle_ok_setTimeout [simp]:
  "poll_handle_ok s \<Longrightarrow> poll_handle_ok (setTimeout cb ms s)"
  by (auto simp: poll_handle_ok_def)

lemma poll_handle_ok_clearTimeout [simp]:
  "poll_handle_ok s \<Longrightarrow> poll_handle_ok (clearTimeout h s)"
  by (auto simp: poll_handle_ok_def)

lemma poll_handle_ok_scheduleNextPoll:
  "timers_ok s \<Longrightarrow> poll_handle_ok (scheduleNextPoll b s)"
  by (auto simp: poll_handle_ok_def timers_ok_def scheduleNextPoll_def Let_def)

lemma poll_handle_ok_segments:
  assumes "poll_handle_ok s" "timers_ok s"
  shows "poll_handle_ok (getDeviceStatus s)"
    "poll_handle_ok (getDeviceStatus_locked c s)"
    "poll_handle_ok (getDeviceStatus_connected c s)"
    "poll_handle_ok (getDeviceStatus_read c status s)"
    "poll_handle_ok (getDeviceStatus_catch c s)"
    "poll_handle_ok (setDeviceValue_locked c s)"
    "poll_handle_ok (setDeviceValue_connected c dps v s)"
    "poll_handle_ok (setDeviceValue_finally c s)"
    "poll_handle_ok (setDeviceValue_catch c s)"
    "poll_handle_ok (setDeviceValueWithTimeout dps v s)"
    "poll_handle_ok (setDeviceValueWithTimeout_catch c s)"
    "poll_handle_ok (handleFanRotationSpeedSet x s)"
  using assms
  by (simp_all add: getDeviceStatus_def getDeviceStatus_locked_def
      getDeviceStatus_connected_def getDeviceStatus_finally_def getDeviceStatus_read_def
      getDeviceStatus_catch_def setDeviceValue_def setDeviceValue_locked_def
      setDeviceValue_connected_def setDeviceValue_finally_def setDeviceValue_catch_def
      setDeviceValueWithTimeout_def setDeviceValueWithTimeout_catch_def
      poll_handle_ok_scheduleNextPoll Let_def handleFanRotationSpeedSet_def
      split: option.splits)

lemma poll_handle_ok_run_callback:
  "poll_handle_ok s \<Longrightarrow> timers_ok s \<Longrightarrow> poll_handle_ok (run_callback cb s)"
  by (cases cb) (simp_all add: run_callback_def poll_handle_ok_segments debounce_callback_def)

lemma poll_handle_ok_step:
  assumes "poll_handle_ok s" "timers_ok s"
  shows "poll_handle_ok (step e s)"
proof (cases e)
  case (HomeKitGet ch)
  then show ?thesis
    using assms
    by (cases ch)
       (simp_all add: handleFanActiveStateGet_def handleFanRotationSpeedGet_def
          handleFanRotationDirectionGet_def handleLightOnGet_def get_handler_result
          poll_handle_ok_segments)
qed (use assms in \<open>auto simp: poll_handle_ok_segments poll_handle_ok_run_callback
      handleFanActiveStateSet_def handleFanRotationDirectionSet_def handleLightOnSet_def
      split: option.splits kind.splits\<close>)


lemma debounce_pending_clearTimeout_other:
  "h \<notin> fst ` set (debounce_pending s) \<Longrightarrow>
   debounce_pending (clearTimeout h s) = debounce_pending s"
  by (simp add: debounce_pending_clearTimeout filter_id_conv) force

lemma poll_handle_not_debounce:
  "poll_handle_ok s \<Longrightarrow> getDeviceStatusTimer s \<notin> fst ` set (debounce_pending s)"
  by (auto simp: poll_handle_ok_def debounce_pending_def)

lemma still_segments:
  "debounce_pending (getDeviceStatus_locked c s) = debounce_pending s \<and>
     speed_commands (getDeviceStatus_locked c s) = speed_commands s"
  "debounce_pending (getDeviceStatus_connected c s) = debounce_pending s \<and>
     speed_commands (getDeviceStatus_connected c s) = speed_commands s"
  "debounce_pending (getDeviceStatus_read c status s) = debounce_pending s \<and>
     speed_commands (getDeviceStatus_read c status s) = speed_commands s"
  "debounce_pending (getDeviceStatus_catch c s) = debounce_pending s \<and>
     speed_commands (getDeviceStatus_catch c s) = speed_commands s"
  "debounce_pending (setDeviceValue_locked c s) = debounce_pending s \<and>
     speed_commands (setDeviceValue_locked c s) = speed_commands s"
  "debounce_pending (setDeviceValue_connected c dps v s) = debounce_pending s \<and>
     speed_commands (setDeviceValue_connected c dps v s) = speed_commands s"
  "debounce_pending (setDeviceValue_finally c s) = debounce_pending s \<and>
     speed_commands (setDeviceValue_finally c s) = speed_commands s"
  "debounce_pending (setDeviceValue_catch c s) = debounce_pending s \<and>
     speed_commands (setDeviceValue_catch c s) = speed_commands s"
  "debounce_pending (setDeviceValueWithTimeout_catch c s) = debounce_pending s \<and>
     speed_commands (setDeviceValueWithTimeout_catch c s) = speed_commands s"
  by (simp_all add: getDeviceStatus_locked_def
      getDeviceStatus_connected_def getDeviceStatus_finally_def getDeviceStatus_read_def
      getDeviceStatus_catch_def scheduleNextPoll_def setDeviceValue_locked_def
      setDeviceValue_connected_def setDeviceValue_finally_def setDeviceValue_catch_def
      setDeviceValueWithTimeout_catch_def Let_def)

lemma still_getDeviceStatus:
  assumes "poll_handle_ok s"
  shows "debounce_pending (getDeviceStatus s) = debounce_pending s \<and>
         speed_commands (getDeviceStatus s) = speed_commands s"
  using debounce_pending_clearTimeout_other [OF poll_handle_not_debounce [OF assms]]
  by (simp add: getDeviceStatus_def scheduleNextPoll_def Let_def)

lemma still_run_callback:
  assumes "poll_handle_ok s" "\<not> is_debounce cb"
  shows "debounce_pending (run_callback cb s) = debounce_pending s \<and>
         speed_commands (run_callback cb s) = speed_commands s"
  using assms
  by (cases cb) (simp_all add: run_callback_def still_segments still_getDeviceStatus)

lemma still_step:
  assumes "timers_ok s" "poll_handle_ok s" "\<not> is_slider_input e" "\<not> fires_debounce e s"
  shows "debounce_pending (step e s) = debounce_pending s \<and>
         speed_commands (step e s) = speed_commands s"
proof (cases e)
  case (TimerFires h)
  show ?thesis
  proof (cases "pending_timer h s")
    case None
    with TimerFires show ?thesis by simp
  next
    case (Some t)
    obtain cb ms where t: "t = (cb, ms)" by (cases t)
    from assms(4) TimerFires have nh: "h \<notin> fst ` set (debounce_pending s)" by simp
    have "\<not> is_debounce cb"
    proof
      assume "is_debounce cb"
      with pending_timer_mem [of h s cb ms] Some t
      have "(h, cb, ms) \<in> set (debounce_pending s)"
        by (simp add: debounce_pending_def)
      with nh show False by force
    qed
    moreover have "poll_handle_ok (clearTimeout h s)" using assms(2) by simp
    ultimately have "debounce_pending (run_callback cb (clearTimeout h s)) =
        debounce_pending (clearTimeout h s) \<and>
        speed_commands (run_callback cb (clearTimeout h s)) = speed_commands (clearTimeout h s)"
      using still_run_callback by blast
    with TimerFires Some t debounce_pending_clearTimeout_other [OF nh] show ?thesis
      by simp
  qed
next
  case (HomeKitGet ch)
  then show ?thesis
    using still_getDeviceStatus [OF assms(2)]
    by (cases ch)
       (simp_all add: handleFanActiveStateGet_def handleFanRotationSpeedGet_def
          handleFanRotationDirectionGet_def handleLightOnGet_def get_handler_result)
next
  case (HomeKitSetRotationSpeed v)
  with assms(3) show ?thesis by simp
qed (auto simp: still_segments handleFanActiveStateSet_def
      handleFanRotationDirectionSet_def handleLightOnSet_def
      speed_commands_setDeviceValueWithTimeout debounce_pending_setDeviceValueWithTimeout
      split: option.splits kind.splits)

lemma gesture_inv_step: "gesture_inv s \<Longrightarrow> gesture_inv (step e s)"
  by (simp add: gesture_inv_def timers_ok_step debounce_ok_step poll_handle_ok_step
      del: step.simps)

lemma gesture_inv_run: "gesture_inv s \<Longrightarrow> gesture_inv (run es s)"
  by (induction es arbitrary: s) (simp_all add: gesture_inv_step del: step.simps)

lemma gesture_inv_init: "gesture_inv (CreateCeilingFanAccessory light)"
  by (simp add: gesture_inv_def invariants_init)
     (simp add: poll_handle_ok_def CreateCeilingFanAccessory_def)

lemma gesture_step:
  assumes "gesture_inv s" "\<not> fires_debounce e s"
  shows "speed_commands (step e s) = speed_commands s"
    "debounce_pending (step e s) =
       (case e of
          HomeKitSetRotationSpeed v \<Rightarrow>
            (if v = 0 then []
             else [(nextTimer s, Debounce (adjustInputRotationSpeed v), fanSetSpeedDebouncePeriod)])
        | _ \<Rightarrow> debounce_pending s)"
proof -
  from assms(1) have ok: "timers_ok s" "debounce_ok s" "poll_handle_ok s"
    by (simp_all add: gesture_inv_def)
  show "speed_commands (step e s) = speed_commands s"
  proof (cases "is_slider_input e")
    case True
    then obtain v where "e = HomeKitSetRotationSpeed v" by (cases e) simp_all
    then show ?thesis by (simp add: speed_commands_def dispatched_slider_input)
  next
    case False
    with still_step [OF ok(1,3) _ assms(2)] show ?thesis by blast
  qed
  show "debounce_pending (step e s) =
       (case e of
          HomeKitSetRotationSpeed v \<Rightarrow>
            (if v = 0 then []
             else [(nextTimer s, Debounce (adjustInputRotationSpeed v), fanSetSpeedDebouncePeriod)])
        | _ \<Rightarrow> debounce_pending s)"
  proof (cases "is_slider_input e")
    case True
    then obtain v where "e = HomeKitSetRotationSpeed v" by (cases e) simp_all
    then show ?thesis using slider_input [OF ok(2), of v] by simp
  next
    case False
    with still_step [OF ok(1,3) _ assms(2)]
    have "debounce_pending (step e s) = debounce_pending s" by blast
    with False show ?thesis by (cases e) (simp_all del: step.simps)
  qed
qed

lemma gesture_speed_commands:
  "gesture_inv s \<Longrightarrow> gesture es s \<Longrightarrow> speed_commands (run es s) = speed_commands s"
proof (induction es arbitrary: s)
  case Nil
  then show ?case by simp
next
  case (Cons e es)
  then have "speed_commands (run es (step e s)) = speed_commands (step e s)"
    by (simp add: gesture_inv_step del: step.simps)
  with Cons.prems gesture_step(1) [of s e] show ?case
    by (simp del: step.simps)
qed

lemma gesture_pending:
  "gesture_inv s \<Longrightarrow> gesture es s \<Longrightarrow>
   (if slider_inputs es = [] then debounce_pending (run es s) = debounce_pending s
    else \<exists>h. debounce_pending (run es s) =
           (if last (slider_inputs es) = 0 then []
            else [(h, Debounce (adjustInputRotationSpeed (last (slider_inputs es))),
                   fanSetSpeedDebouncePeriod)]))"
proof (induction es arbitrary: s)
  case Nil
  then show ?case by simp
next
  case (Cons e es)
  from Cons.prems have nf: "\<not> fires_debounce e s" and g: "gesture es (step e s)"
    by simp_all
  have inv: "gesture_inv (step e s)" using Cons.prems(1) by (rule gesture_inv_step)
  note IH = Cons.IH [OF inv g]
  note st = gesture_step(2) [OF Cons.prems(1) nf]
  show ?case
  proof (cases "slider_inputs es = []")
    case False
    then have "last (slider_inputs (e # es)) = last (slider_inputs es)"
      "slider_inputs (e # es) \<noteq> []"
      by (cases e; simp)+
    with IH False show ?thesis by (auto simp del: step.simps)
  next
    case True
    with IH have r: "debounce_pending (run es (step e s)) = debounce_pending (step e s)"
      by simp
    show ?thesis
    proof (cases "is_slider_input e")
      case True
      then obtain v where v: "e = HomeKitSetRotationSpeed v" by (cases e) simp_all
      with \<open>slider_inputs es = []\<close> have "slider_inputs (e # es) = [v]" by simp
      with r st v show ?thesis by (auto simp del: step.simps)
    next
      case False
      with \<open>slider_inputs es = []\<close> have "slider_inputs (e # es) = []"
        by (cases e) simp_all
      moreover from False st have "debounce_pending (step e s) = debounce_pending s"
        by (cases e) (simp_all del: step.simps)
      ultimately show ?thesis using r by (simp del: step.simps)
    qed
  qed
qed


text \<open>
  Claim C6, as the code has it. From any reachable state, take a gesture: slider inputs,
  with any other events between them, and no debounce timer firing. The gesture
  dispatches no speed command. When its last slider input is not 0, exactly one debounce
  timer is pending afterwards, carrying the quantised level of that input; when that
  timer fires, the command for the device speed of that level is dispatched, and as long
  as the slider is not moved again no other speed command follows. When the last slider
  input is 0, no debounce timer is pending and no speed command follows at all.
\<close>

theorem debounce_last_input:
  assumes "gesture es (run es0 (CreateCeilingFanAccessory light))"
    and "slider_inputs es \<noteq> []" and "slider_at_rest es'"
  shows "(let s = run es0 (CreateCeilingFanAccessory light);
              s' = run es s;
              q = adjustInputRotationSpeed (last (slider_inputs es))
          in speed_commands s' = speed_commands s \<and>
             (last (slider_inputs es) = 0 \<longrightarrow>
                debounce_pending s' = [] \<and> speed_commands (run es' s') = speed_commands s) \<and>
             (last (slider_inputs es) \<noteq> 0 \<longrightarrow>
                (\<exists>h. debounce_pending s' = [(h, Debounce q, fanSetSpeedDebouncePeriod)] \<and>
                   dispatched (step (TimerFires h) s') =
                     dispatched s' @ [(62, VNum (dpsRotationSpeed q))] \<and>
                   speed_commands (run es' (step (TimerFires h) s')) =
                     speed_commands s @ [(62, VNum (dpsRotationSpeed q))])))"
proof -
  let ?s = "run es0 (CreateCeilingFanAccessory light)"
  let ?s' = "run es ?s"
  let ?q = "adjustInputRotationSpeed (last (slider_inputs es))"
  have inv: "gesture_inv ?s"
    using gesture_inv_init by (rule gesture_inv_run)
  then have "gesture_inv ?s'" by (rule gesture_inv_run)
  then have ok': "timers_ok ?s'" by (simp add: gesture_inv_def)
  have sc: "speed_commands ?s' = speed_commands ?s"
    using inv assms(1) by (rule gesture_speed_commands)
  obtain h where h: "debounce_pending ?s' =
      (if last (slider_inputs es) = 0 then [] else [(h, Debounce ?q, fanSetSpeedDebouncePeriod)])"
    using gesture_pending [OF inv assms(1)] assms(2) by auto
  have zero: "debounce_pending ?s' = [] \<and> speed_commands (run es' ?s') = speed_commands ?s"
    if "last (slider_inputs es) = 0"
    using that h sc quiet_run [of ?s' es'] assms(3) by simp
  have nonzero: "\<exists>h. debounce_pending ?s' = [(h, Debounce ?q, fanSetSpeedDebouncePeriod)] \<and>
      dispatched (step (TimerFires h) ?s') = dispatched ?s' @ [(62, VNum (dpsRotationSpeed ?q))] \<and>
      speed_commands (run es' (step (TimerFires h) ?s')) =
        speed_commands ?s @ [(62, VNum (dpsRotationSpeed ?q))]"
    if "last (slider_inputs es) \<noteq> 0"
  proof -
    from that h have p: "debounce_pending ?s' = [(h, Debounce ?q, fanSetSpeedDebouncePeriod)]"
      by simp
    note f = debounce_fires [OF ok' p]
    have "speed_commands (run es' (step (TimerFires h) ?s')) =
          speed_commands (step (TimerFires h) ?s')"
      using quiet_run [OF f(1) assms(3)] by simp
    with f p sc show ?thesis by (intro exI [of _ h]) (simp del: step.simps)
  qed
  show ?thesis
    unfolding Let_def using sc zero nonzero by blast
qed

text \<open>
  The inputs 42, 45, 58, with the poll timer firing and a get request between them: one
  debounce timer is pending, for level 50; after it has fired the only speed command is
  the one for device speed 3.
\<close>

theorem debounce_last_input_witness:
  "gesture [HomeKitSetRotationSpeed 42, TimerFires 0, HomeKitSetRotationSpeed 45,
            HomeKitGet Active, HomeKitSetRotationSpeed 58]
     (run [] (CreateCeilingFanAccessory True)) \<and>
   slider_inputs [HomeKitSetRotationSpeed 42, TimerFires 0, HomeKitSetRotationSpeed 45,
            HomeKitGet Active, HomeKitSetRotationSpeed 58] = [42, 45, 58] \<and>
   slider_at_rest [Resume 0] \<and>
   debounce_pending (run [HomeKitSetRotationSpeed 42, TimerFires 0, HomeKitSetRotationSpeed 45,
            HomeKitGet Active, HomeKitSetRotationSpeed 58]
     (run [] (CreateCeilingFanAccessory True))) = [(4, Debounce 50, 500)] \<and>
   speed_commands (run [Resume 0] (step (TimerFires 4)
     (run [HomeKitSetRotationSpeed 42, TimerFires 0, HomeKitSetRotationSpeed 45,
            HomeKitGet Active, HomeKitSetRotationSpeed 58]
        (run [] (CreateCeilingFanAccessory True))))) = [(62, VNum 3)]"
proof -
  let ?es = "[HomeKitSetRotationSpeed 42, TimerFires 0, HomeKitSetRotationSpeed 45,
            HomeKitGet Active, HomeKitSetRotationSpeed 58]"
  let ?s' = "run ?es (run [] (CreateCeilingFanAccessory True))"
  have a: "gesture ?es (run [] (CreateCeilingFanAccessory True))"
    by (simp add: eval_defs)
  have i: "slider_inputs ?es = [42, 45, 58]" by simp
  then have n: "slider_inputs ?es \<noteq> []" by simp
  have b: "slider_at_rest [Resume 0]" by (simp add: slider_at_rest_def)
  have p: "debounce_pending ?s' = [(4, Debounce 50, 500)]"
    by (simp add: eval_defs)
  have q: "adjustInputRotationSpeed (last (slider_inputs ?es)) = 50"
    "last (slider_inputs ?es) \<noteq> 0"
    by (simp_all add: adjustInputRotationSpeed_cases)
  have d: "dpsRotationSpeed 50 = 3"
    by (simp add: dpsRotationSpeed_def fanRotationSpeedNormalized_def)
  have e: "speed_commands (run [] (CreateCeilingFanAccessory True)) = []"
    by (simp add: speed_commands_def CreateCeilingFanAccessory_def)
  from debounce_last_input [OF a n b] q
  obtain h where h: "debounce_pending ?s' = [(h, Debounce 50, fanSetSpeedDebouncePeriod)]"
    and c: "speed_commands (run [Resume 0] (step (TimerFires h) ?s')) =
        speed_commands (run [] (CreateCeilingFanAccessory True)) @
          [(62, VNum (dpsRotationSpeed 50))]"
    unfolding Let_def by auto
  from h p have "h = 4" by simp
  with c d e have "speed_commands (run [Resume 0] (step (TimerFires 4) ?s')) = [(62, VNum 3)]"
    by simp
  with a i b p show ?thesis by simp
qed

text \<open>
  The claim as the specification states it fails for a burst that ends in 0. After the
  inputs 42, 0 no debounce timer is pending, and nothing has been dispatched after the
  timers that existed have fired: the burst gives no speed command, not one.
\<close>

theorem debounce_last_input_counterexample:
  "debounce_pending (run (map HomeKitSetRotationSpeed [42, 0])
     (CreateCeilingFanAccessory True)) = [] \<and>
   dispatched (run (map HomeKitSetRotationSpeed [42, 0] @ [TimerFires 1, TimerFires 0, Resume 0])
     (CreateCeilingFanAccessory True)) = []"
  by (simp add: eval_defs)





section \<open>Promises that settle after their timeout\<close>

lemma map_of_append_other:
  "x \<noteq> y \<Longrightarrow> map_of (xs @ [(y, z)]) x = map_of xs x"
  by (induction xs) auto

lemma task_of_await_lock_other:
  "c \<noteq> nextTask s \<Longrightarrow> task_of c (await_lock k s) = task_of c s"
  unfolding task_of_def await_lock_sel by (rule map_of_append_other)

lemma task_of_releaseMutex_None:
  "task_of x (releaseMutex s) = None \<longleftrightarrow> task_of x s = None"
  using task_of_releaseMutex [of x s] by (metis map_option_is_None)

lemma task_of_upd2 [simp]:
  "task_of x (s\<lparr>dispatched := di, calls := ca\<rparr>) = task_of x s"
  "task_of x (s\<lparr>fanSetSpeedDebounceTimer := d\<rparr>) = task_of x s"
  by (simp_all add: task_of_def)

lemma task_over_segments:
  assumes "tasks_ok s" "c < nextTask s" "task_of c s = None"
  shows "task_of c (getDeviceStatus s) = None \<and> nextTask s \<le> nextTask (getDeviceStatus s)"
    "task_of c (getDeviceStatus_locked d s) = None \<and> nextTask s \<le> nextTask (getDeviceStatus_locked d s)"
    "task_of c (getDeviceStatus_connected d s) = None \<and>
       nextTask s \<le> nextTask (getDeviceStatus_connected d s)"
    "task_of c (getDeviceStatus_read d status s) = None \<and>
       nextTask s \<le> nextTask (getDeviceStatus_read d status s)"
    "task_of c (getDeviceStatus_catch d s) = None \<and>
       nextTask s \<le> nextTask (getDeviceStatus_catch d s)"
    "task_of c (setDeviceValue_locked d s) = None \<and>
       nextTask s \<le> nextTask (setDeviceValue_locked d s)"
    "task_of c (setDeviceValue_connected d dps v s) = None \<and>
       nextTask s \<le> nextTask (setDeviceValue_connected d dps v s)"
    "task_of c (setDeviceValue_finally d s) = None \<and>
       nextTask s \<le> nextTask (setDeviceValue_finally d s)"
    "task_of c (setDeviceValue_catch d s) = None \<and>
       nextTask s \<le> nextTask (setDeviceValue_catch d s)"
    "task_of c (setDeviceValueWithTimeout dps v s) = None \<and>
       nextTask s \<le> nextTask (setDeviceValueWithTimeout dps v s)"
    "task_of c (setDeviceValueWithTimeout_catch d s) = None \<and>
       nextTask s \<le> nextTask (setDeviceValueWithTimeout_catch d s)"
    "task_of c (handleFanRotationSpeedSet x s) = None \<and>
       nextTask s \<le> nextTask (handleFanRotationSpeedSet x s)"
  using assms
  by (auto simp: seg_defs Let_def handleFanRotationSpeedSet_def
      task_of_suspend task_of_finish task_of_releaseMutex_None task_of_await_lock_other
      split: option.splits)

lemma task_over_run_callback:
  assumes "tasks_ok s" "c < nextTask s" "task_of c s = None"
  shows "task_of c (run_callback cb s) = None \<and> nextTask s \<le> nextTask (run_callback cb s)"
  using assms
  by (cases cb) (simp_all add: run_callback_def task_over_segments debounce_callback_def)

lemma task_over_step:
  assumes "task_over c s"
  shows "task_over c (step e s)"
proof -
  from assms have a: "tasks_ok s" "c < nextTask s" "task_of c s = None"
    by (simp_all add: task_over_def)
  have "task_of c (step e s) = None \<and> nextTask s \<le> nextTask (step e s)"
  proof (cases e)
    case (HomeKitGet ch)
    then show ?thesis
      using task_over_segments(1) [OF a]
      by (cases ch)
         (simp_all add: handleFanActiveStateGet_def handleFanRotationSpeedGet_def
            handleFanRotationDirectionGet_def handleLightOnGet_def get_handler_result)
  next
    case (TimerFires h)
    have "tasks_ok (clearTimeout h s)" "c < nextTask (clearTimeout h s)"
      "task_of c (clearTimeout h s) = None"
      using a by simp_all
    from task_over_run_callback [OF this] TimerFires a show ?thesis
      by (auto split: option.splits)
  qed (use a in \<open>auto simp: task_over_segments handleFanActiveStateSet_def
        handleFanRotationDirectionSet_def handleLightOnSet_def
        split: option.splits kind.splits\<close>)
  with a tasks_ok_step [of s e] show ?thesis
    by (simp add: task_over_def del: step.simps)
qed

lemma task_over_run: "task_over c s \<Longrightarrow> task_over c (run es s)"
  by (induction es arbitrary: s) (simp_all add: task_over_step del: step.simps)




lemma state_setDeviceValue_segments [simp]:
  "state (setDeviceValue_locked c s) = state s"
  "state (setDeviceValue_connected c dps v s) = state s"
  "state (setDeviceValue_finally c s) = state s"
  "state (setDeviceValue_catch c s) = state s"
  by (simp_all add: seg_defs)

lemma task_of_setDeviceValue_steps:
  "task_of c s = Some (k, q) \<Longrightarrow> task_of c (setDeviceValue_locked c s) = Some (k, AwaitConnect)"
  "task_of c s = Some (k, q) \<Longrightarrow>
     task_of c (setDeviceValue_connected c dps v s) = Some (k, AwaitSet)"
  by (simp_all add: setDeviceValue_locked_def setDeviceValue_connected_def task_of_suspend)

lemma suspended_at_task_of': "suspended_at c p s = (case task_of c s of None \<Rightarrow> None
     | Some (k, q) \<Rightarrow> if q = p then Some k else None)"
  by (simp add: suspended_at_def)

text \<open>A poll whose race has timed out.\<close>

lemma poll_timed_out:
  assumes "tasks_ok s" "suspended_at c p s = Some GetStatus"
    "pending_timer h s = Some (RaceTimeout c p, ms)"
  shows "mutex (step (TimerFires h) s) = fst (unlock (mutex s))"
    "task_over c (step (TimerFires h) s)"
proof -
  have st: "step (TimerFires h) s = getDeviceStatus_catch c (clearTimeout h s)"
    using assms(2,3) by (simp add: run_callback_def)
  show "mutex (step (TimerFires h) s) = fst (unlock (mutex s))"
    using st by (simp add: mutex_getDeviceStatus_catch)
  have "task_of c s = Some (GetStatus, p)"
    using assms(2) by (simp add: suspended_at_task_of)
  then have "(c, GetStatus, p) \<in> set (tasks s)"
    by (simp add: task_of_def map_of_SomeD)
  then have lt: "c < nextTask s"
    using assms(1) by (auto simp: tasks_ok_def)
  have "nextTask (step (TimerFires h) s) = nextTask s"
    using st by (simp add: seg_defs Let_def)
  moreover have "tasks_ok (step (TimerFires h) s)"
    using assms(1) by (rule tasks_ok_step)
  moreover have "task_of c (step (TimerFires h) s) = None"
    using st by (simp add: task_gone_getDeviceStatus_catch)
  ultimately show "task_over c (step (TimerFires h) s)"
    using lt by (simp add: task_over_def del: step.simps)
qed

text \<open>A dispatch whose caller has already been given the failure.\<close>

lemma late_dispatch:
  assumes "call_outcome d t = Some (Rejected e)" "task_of d t = Some (SetValue dps v, q)"
    "ev \<in> {Resume d, ConnectSettles d ok, SetSettles d ok}"
  shows "state (step ev t) = state t"
    "call_outcome d (step ev t) = Some (Rejected e)"
    "task_of d (step ev t) = None \<longrightarrow> mutex (step ev t) = fst (unlock (mutex t))"
  using assms
  by (auto simp: suspended_at_task_of' call_outcome_setDeviceValue_finally
      call_outcome_setDeviceValue_catch mutex_setDeviceValue_finally mutex_setDeviceValue_catch
      task_of_setDeviceValue_steps)

lemma dispatch_progress_connect:
  assumes "suspended_at d AwaitConnect t = Some (SetValue dps v)"
  shows "suspended_at d AwaitSet (step (ConnectSettles d True) t) = Some (SetValue dps v)"
    "task_of d (step (ConnectSettles d False) t) = None"
proof -
  from assms have k: "task_of d t = Some (SetValue dps v, AwaitConnect)"
    by (simp add: suspended_at_task_of)
  have "step (ConnectSettles d True) t = setDeviceValue_connected d dps v t"
    using assms by simp
  moreover have "task_of d (setDeviceValue_connected d dps v t) = Some (SetValue dps v, AwaitSet)"
    using k by (rule task_of_setDeviceValue_steps(2))
  ultimately show "suspended_at d AwaitSet (step (ConnectSettles d True) t) =
      Some (SetValue dps v)"
    by (simp add: suspended_at_task_of del: step.simps)
  show "task_of d (step (ConnectSettles d False) t) = None"
    using assms by (simp add: task_gone_setDeviceValue_catch)
qed

lemma dispatch_progress_set:
  assumes "suspended_at d AwaitSet t = Some (SetValue dps v)"
  shows "task_of d (step (SetSettles d ok) t) = None"
  using assms
  by (simp add: task_gone_setDeviceValue_catch task_gone_setDeviceValue_finally)

text \<open>
  Claim C9. Three operations are wrapped by \<^verbatim>\<open>waitForPromiseWithTimeout\<close>.
  For \<^verbatim>\<open>connect()\<close> and \<^verbatim>\<open>get()\<close> of a poll, in any reachable state: when the timer
  of the race fires, the poll ends and releases the mutex; whenever the promise of
  \<^verbatim>\<open>connect()\<close> or \<^verbatim>\<open>get()\<close> settles after that, after any further events, the
  accessory is left exactly as it is. For a \<^verbatim>\<open>setDeviceValue\<close> call whose caller
  has been given the failure: each further step of the call leaves the cache and the
  caller's outcome as they are, and the step that ends the call releases the mutex; from
  \<^verbatim>\<open>connect()\<close> a rejection ends the call and a fulfilment leads to \<^verbatim>\<open>set()\<close>, whose
  settling ends the call.
\<close>

theorem timeout_non_corruption:
  "(let s = run es0 (CreateCeilingFanAccessory light);
        s1 = step (TimerFires h) s;
        s2 = run es s1
    in suspended_at c p s = Some GetStatus \<and> pending_timer h s = Some (RaceTimeout c p, ms) \<longrightarrow>
         mutex s1 = fst (unlock (mutex s)) \<and>
         step (ConnectSettles c ok) s2 = s2 \<and> step (ReadSettles c r) s2 = s2) \<and>
   (call_outcome d t = Some (Rejected e) \<and> task_of d t = Some (SetValue dps v, q) \<and>
    ev \<in> {Resume d, ConnectSettles d ok, SetSettles d ok} \<longrightarrow>
      state (step ev t) = state t \<and> call_outcome d (step ev t) = Some (Rejected e) \<and>
      (task_of d (step ev t) = None \<longrightarrow> mutex (step ev t) = fst (unlock (mutex t)))) \<and>
   (suspended_at d AwaitConnect t = Some (SetValue dps v) \<longrightarrow>
      suspended_at d AwaitSet (step (ConnectSettles d True) t) = Some (SetValue dps v) \<and>
      task_of d (step (ConnectSettles d False) t) = None) \<and>
   (suspended_at d AwaitSet t = Some (SetValue dps v) \<longrightarrow>
      task_of d (step (SetSettles d ok) t) = None)"
proof -
  let ?s = "run es0 (CreateCeilingFanAccessory light)"
  let ?s1 = "step (TimerFires h) ?s"
  let ?s2 = "run es ?s1"
  have poll: "mutex ?s1 = fst (unlock (mutex ?s)) \<and>
      step (ConnectSettles c ok) ?s2 = ?s2 \<and> step (ReadSettles c r) ?s2 = ?s2"
    if a: "suspended_at c p ?s = Some GetStatus"
      and b: "pending_timer h ?s = Some (RaceTimeout c p, ms)"
  proof -
    have ok: "tasks_ok ?s" by (rule invariants_reachable)
    note t = poll_timed_out [OF ok a b]
    from t(2) have "task_over c ?s2" by (rule task_over_run)
    then have "task_of c ?s2 = None" by (simp add: task_over_def)
    with t(1) step_settles_gone(1,2) [of c ?s2] show ?thesis by blast
  qed
  have late: "state (step ev t) = state t \<and> call_outcome d (step ev t) = Some (Rejected e) \<and>
      (task_of d (step ev t) = None \<longrightarrow> mutex (step ev t) = fst (unlock (mutex t)))"
    if "call_outcome d t = Some (Rejected e)" and "task_of d t = Some (SetValue dps v, q)"
      and "ev \<in> {Resume d, ConnectSettles d ok, SetSettles d ok}"
    using late_dispatch [OF that] by blast
  show ?thesis
    unfolding Let_def
    using poll late dispatch_progress_connect [of d t dps v]
      dispatch_progress_set [of d t dps v ok]
    by blast
qed


text \<open>
  A poll whose \<^verbatim>\<open>connect()\<close> race timed out: the mutex is free, and a later fulfilment
  of \<^verbatim>\<open>connect()\<close> changes nothing. A dispatch that timed out while sending: when
  \<^verbatim>\<open>set()\<close> is fulfilled later, the cache is untouched, the caller keeps its failure,
  the call is over and the mutex is free.
\<close>


theorem timeout_non_corruption_witness:
  "suspended_at 0 AwaitConnect poll_connecting = Some GetStatus \<and>
   pending_timer 1 poll_connecting = Some (RaceTimeout 0 AwaitConnect, 3000) \<and>
   \<not> isLocked (mutex (step (TimerFires 1) poll_connecting)) \<and>
   step (ConnectSettles 0 True) (run [HomeKitGet Active] (step (TimerFires 1) poll_connecting)) =
     run [HomeKitGet Active] (step (TimerFires 1) poll_connecting) \<and>
   call_outcome 0 light_sending_late = Some (Rejected SERVICE_COMMUNICATION_FAILURE) \<and>
   task_of 0 light_sending_late = Some (SetValue 20 (VBool True), AwaitSet) \<and>
   state (step (SetSettles 0 True) light_sending_late) = state light_sending_late \<and>
   call_outcome 0 (step (SetSettles 0 True) light_sending_late) =
     Some (Rejected SERVICE_COMMUNICATION_FAILURE) \<and>
   task_of 0 (step (SetSettles 0 True) light_sending_late) = None \<and>
   \<not> isLocked (mutex (step (SetSettles 0 True) light_sending_late))"
proof -
  have a: "suspended_at 0 AwaitConnect poll_connecting = Some GetStatus"
    by (simp add: eval_defs)
  have b: "pending_timer 1 poll_connecting = Some (RaceTimeout 0 AwaitConnect, 3000)"
    by (simp add: eval_defs)
  have m: "fst (unlock (mutex poll_connecting)) = \<lparr>isLocked = False, waitingQueue = []\<rparr>"
    by (simp add: eval_defs)
  have c: "call_outcome 0 light_sending_late = Some (Rejected SERVICE_COMMUNICATION_FAILURE)"
    by (simp add: eval_defs)
  have d: "task_of 0 light_sending_late = Some (SetValue 20 (VBool True), AwaitSet)"
    by (simp add: eval_defs)
  have e: "suspended_at 0 AwaitSet light_sending_late = Some (SetValue 20 (VBool True))"
    by (simp add: eval_defs)
  have n: "fst (unlock (mutex light_sending_late)) = \<lparr>isLocked = False, waitingQueue = []\<rparr>"
    by (simp add: eval_defs)
  note w = timeout_non_corruption [where ?es0.0 = "[TimerFires 0, Resume 0]" and light = True
      and h = 1 and es = "[HomeKitGet Active]" and c = 0 and p = AwaitConnect and ms = 3000
      and ok = True and r = None and d = 0 and t = light_sending_late
      and e = SERVICE_COMMUNICATION_FAILURE and dps = 20 and v = "VBool True" and q = AwaitSet
      and ev = "SetSettles 0 True"]
  show ?thesis
    using a b m c d e n w
    unfolding Let_def poll_connecting_def [symmetric]
    by (simp del: step.simps run.simps)
qed


end
